theory Spec2Isabelle
  imports Main "HOL-Library.Monad_Syntax"
begin

section \<open>The tokenizer of the Link Grammar parser (link-grammar/tokenize.c)\<close>

text \<open>
  Conventions of the embedding.
  \<^item> A C string is a \<open>string\<close>: the bytes before the terminating NUL. A pointer \<open>w\<close> into
    the sentence is the string that starts at \<open>w\<close> (all bytes up to the NUL of the sentence),
    and a pair \<open>w\<close>, \<open>wend\<close> is that string with the number \<open>wend - w\<close>.
  \<^item> A NULL-terminated array of strings (\<open>alternatives\<close>, an affix class) is a list; the
    NULL array is the empty list. A pointer that may be NULL is an \<open>option\<close>.
  \<^item> The sentence is passed in and returned. A function that can end the program (an
    assertion that fails, a NULL pointer read, a copy that runs over its buffer) returns an
    \<open>option\<close>, \<open>None\<close> being that end.
  \<^item> \<open>int\<close> and \<open>size_t\<close> counters are natural numbers, except where the source computes a
    difference that can be negative; there the difference is an \<open>int\<close>.
  \<^item> Debug output (\<open>lgdebug\<close>, \<open>printf\<close>, \<open>prt_error\<close>) and the string set, which only
    shares equal strings, are left out.
\<close>

subsection \<open>Data model\<close>

text \<open>One word slot of the sentence (\<open>Word\<close> of structures.h). The fields \<open>x\<close> and \<open>d\<close>
  are NULL throughout tokenization and are left out.\<close>

record Word =
  alternatives :: "string list"
  unsplit_word :: "string option"
  firstupper :: bool

text \<open>The sentence: the array \<open>word\<close>, the array \<open>post_quote\<close> (a map: an entry never written
  is not initialised), \<open>length\<close>, and the staging window \<open>t_start\<close>, \<open>t_count\<close>.\<close>

record Sentence =
  word :: "Word list"
  post_quote :: "nat \<rightharpoonup> bool"
  length_s :: nat
  t_start :: nat
  t_count :: nat

text \<open>The affix classes the tokenizer reads through \<open>AFCLASS(afdict, ...)\<close>, each an
  ordered list of strings.\<close>

record Afdict =
  LPUNC :: "string list"
  RPUNC :: "string list"
  UNITS :: "string list"
  PRE :: "string list"
  SUF :: "string list"
  MPRE :: "string list"
  STEMSUBSCR :: "string list"

text \<open>The spell checker behind \<open>dict->spell_checker\<close>: \<open>spellcheck_test\<close> and
  \<open>spellcheck_suggest\<close> (spellcheck.h), taken as parameters.\<close>

record Spell_Checker =
  spellcheck_test :: "string \<Rightarrow> bool"
  spellcheck_suggest :: "string \<Rightarrow> string list"

text \<open>The dictionary. Its lookups (\<open>boolean_dictionary_lookup\<close>, \<open>find_word_in_dict\<close>,
  \<open>match_regex\<close>) are not in tokenize.c and are parameters, as are the value of the macro
  \<open>INFIX_MARK\<close> (the NUL character when no infix mark is defined) and the wide strings of the
  classes QUOTES and BULLETS (\<open>None\<close> for a NULL string).\<close>

record Dictionary =
  affix_table :: "Afdict option"
  INFIX_MARK :: char
  quotes :: "nat list option"
  bullets :: "nat list option"
  left_wall_defined :: bool
  right_wall_defined :: bool
  boolean_dictionary_lookup :: "string \<Rightarrow> bool"
  find_word_in_dict :: "string \<Rightarrow> bool"
  match_regex :: "string \<Rightarrow> string option"
  spell_checker :: "Spell_Checker option"

text \<open>Constants of the headers, the debug toggles and the C library, none of them in
  tokenize.c: parameters. \<open>mb_char e s\<close> is what \<open>mbrtowc\<close> does at a string \<open>s\<close> that is
  not empty: the value it returns (negative for an invalid or incomplete sequence, else
  the number of bytes of the first character) and the wide character it stores when that
  value is not negative. \<open>downcase_utf8_str\<close> is the string that function stores.\<close>

record Env =
  MAX_WORD :: nat
  EMPTY_WORD_MARK :: string
  LEFT_WALL_WORD :: string
  RIGHT_WALL_WORD :: string
  test_enabled :: "string \<Rightarrow> bool"
  downcase_utf8_str :: "string \<Rightarrow> string"
  iswspace :: "nat \<Rightarrow> bool"
  iswdigit :: "nat \<Rightarrow> bool"
  iswupper :: "nat \<Rightarrow> bool"
  iswalpha :: "nat \<Rightarrow> bool"
  mb_char :: "string \<Rightarrow> int \<times> nat"

text \<open>\<open>mbrtowc(&c, s, MB_CUR_MAX, &mbs)\<close>: at the terminating NUL it returns 0 and stores
  the null wide character (ISO C).\<close>

definition mbrtowc :: "Env \<Rightarrow> string \<Rightarrow> int \<times> nat" where
  "mbrtowc e s = (if s = [] then (0, 0) else mb_char e s)"

text \<open>Modelled from the spec: \<open>is_utf8_upper\<close>, \<open>is_utf8_alpha\<close> and \<open>is_utf8_digit\<close>
  (utilities.h) are not in tokenize.c. The spec's classifiers "operate on the first code
  point of a byte sequence in the process's current encoding": the first character is
  decoded, an undecodable one is in no class.\<close>

definition is_utf8_upper :: "Env \<Rightarrow> string \<Rightarrow> bool" where
  "is_utf8_upper e s = (let (nb, c) = mbrtowc e s in 0 \<le> nb \<and> iswupper e c)"

definition is_utf8_alpha :: "Env \<Rightarrow> string \<Rightarrow> bool" where
  "is_utf8_alpha e s = (let (nb, c) = mbrtowc e s in 0 \<le> nb \<and> iswalpha e c)"

definition is_utf8_digit :: "Env \<Rightarrow> string \<Rightarrow> bool" where
  "is_utf8_digit e s = (let (nb, c) = mbrtowc e s in 0 \<le> nb \<and> iswdigit e c)"

definition NUL :: char where
  "NUL = CHR 0x00"

text \<open>Modelled from the spec: \<open>altlen\<close> (word-utils.h) is not in tokenize.c; the spec's
  alternatives are "an ordered, nullable-terminated list", and \<open>altlen\<close> is the number of
  its entries, 0 for the NULL array.\<close>

definition altlen :: "string list \<Rightarrow> nat" where
  "altlen arr = length arr"

text \<open>\<open>altappend\<close>: grow the array by one entry (\<open>resize_alts\<close>) and store the string.\<close>

definition altappend :: "string list \<Rightarrow> string \<Rightarrow> string list" where
  "altappend alt w = alt @ [w]"

text \<open>\<open>altappend(sent, &sent->word[i].alternatives, w)\<close>.\<close>

definition altappend_at :: "Word list \<Rightarrow> nat \<Rightarrow> string \<Rightarrow> Word list" where
  "altappend_at ws i w = ws[i := (ws ! i)\<lparr>alternatives := altappend (alternatives (ws ! i)) w\<rparr>]"

subsection \<open>add_alternative\<close>

datatype affixtype = PREFIX | STEM | SUFFIX

text \<open>The \<open>switch (at)\<close> of \<open>add_alternative\<close>: the contents of \<open>buff\<close> as a C string.
  A prefix is copied and followed by the infix mark (nothing is added when the mark is NUL,
  which ends the string); a stem is copied; a suffix is copied as it is when it starts
  with a non-alphabetic character, when the mark is NUL or when the toggle "no-suffixes" is
  on, and else \<open>buff[0]\<close> is the mark, \<open>sz\<close> bytes are copied behind it and \<open>buff[sz]\<close>
  ends the string.\<close>

definition format_affix :: "Env \<Rightarrow> Dictionary \<Rightarrow> affixtype \<Rightarrow> string \<Rightarrow> string" where
  "format_affix e d at affix =
     (case at of
        PREFIX \<Rightarrow>
          (let sz = min (length affix) (MAX_WORD e)
           in take sz affix @ (if INFIX_MARK d = NUL then [] else [INFIX_MARK d]))
      | STEM \<Rightarrow>
          (let sz = min (length affix) (MAX_WORD e) in take sz affix)
      | SUFFIX \<Rightarrow>
          (if (affix \<noteq> [] \<and> \<not> is_utf8_alpha e affix) \<or> INFIX_MARK d = NUL
               \<or> test_enabled e ''no-suffixes''
           then (let sz = min (length affix) (MAX_WORD e) in take sz affix)
           else (let sz = min (length affix + 1) (MAX_WORD e)
                 in take sz (INFIX_MARK d # take sz affix))))"

text \<open>A freshly allocated word: \<open>alternatives = NULL\<close>, \<open>unsplit_word = NULL\<close>,
  \<open>firstupper = false\<close>.\<close>

definition new_word :: Word where
  "new_word = \<lparr>alternatives = [], unsplit_word = None, firstupper = False\<rparr>"

text \<open>The block \<open>if (ai == t_count)\<close>: \<open>realloc\<close> the array to \<open>len + 1\<close> words,
  initialise word \<open>len\<close>, count it, and, when it is not the first word of the group, fill
  it with \<open>altlen(first word) - 1\<close> empty-word marks. Returns the new \<open>t_count\<close> and the
  array. (At this point the first word already holds the component of this decomposition,
  so that \<open>numalt\<close> is not negative.)\<close>

definition add_word :: "Env \<Rightarrow> nat \<Rightarrow> nat \<Rightarrow> Word list \<Rightarrow> nat \<times> Word list" where
  "add_word e ts tc ws =
     (let len = ts + tc;
          tc' = tc + 1;
          alt = (if tc' > 1
                 then (let numalt = altlen (alternatives (ws ! ts)) - 1
                       in replicate numalt (EMPTY_WORD_MARK e))
                 else [])
      in (tc', take len ws @ [new_word\<lparr>alternatives := alt\<rparr>]))"

text \<open>One pass of the inner loop behind its two checks: add a word if needed, format the
  component, mark \<open>firstupper\<close> of the group's first word, append the alternative.\<close>

definition add_affix :: "Env \<Rightarrow> Dictionary \<Rightarrow> nat \<Rightarrow> affixtype \<Rightarrow> string \<Rightarrow> nat \<Rightarrow> nat
    \<Rightarrow> Word list \<Rightarrow> nat \<times> Word list" where
  "add_affix e d ts at affix ai tc ws =
     (let (tc1, ws1) = (if ai = tc then add_word e ts tc ws else (tc, ws));
          buff = format_affix e d at affix;
          ws2 = (if is_utf8_upper e buff then ws1[ts := (ws1 ! ts)\<lparr>firstupper := True\<rparr>]
                 else ws1)
      in (tc1, altappend_at ws2 (ts + ai) buff))"

text \<open>The balancing loop at the end:
  \<open>for (len = t_start + ai; len < t_start + t_count; len++) altappend(.., EMPTY_WORD_MARK)\<close>.\<close>

definition balance_rest :: "Env \<Rightarrow> nat \<Rightarrow> nat \<Rightarrow> nat \<Rightarrow> Word list \<Rightarrow> Word list" where
  "balance_rest e ts ai tc ws =
     fold (\<lambda>len ws'. altappend_at ws' len (EMPTY_WORD_MARK e)) [ts + ai ..< ts + tc] ws"

text \<open>The two nested loops over the components (prefixes, then stems, then suffixes),
  with the affix index \<open>ai\<close> and the local \<open>t_count\<close>. The assertion \<open>ai <= t_count\<close> ends
  the program when it fails; an empty first component returns at once, before anything
  is written; after the last component the rest of the group is balanced and
  \<open>sent->t_count\<close> is stored.\<close>

fun add_affixes :: "Env \<Rightarrow> Dictionary \<Rightarrow> (affixtype \<times> string) list \<Rightarrow> nat \<Rightarrow> nat
    \<Rightarrow> Sentence \<Rightarrow> Sentence option" where
  "add_affixes e d [] ai tc sent =
     Some (sent\<lparr>word := balance_rest e (t_start sent) ai tc (word sent), t_count := tc\<rparr>)"
| "add_affixes e d ((at, affix) # rest) ai tc sent =
     (if \<not> ai \<le> tc then None
      else if ai = 0 \<and> affix = [] then Some sent
      else (let (tc1, ws1) = add_affix e d (t_start sent) at affix ai tc (word sent)
            in add_affixes e d rest (ai + 1) tc1 (sent\<lparr>word := ws1\<rparr>)))"

definition add_alternative :: "Env \<Rightarrow> Dictionary \<Rightarrow> Sentence \<Rightarrow> string list \<Rightarrow> string list
    \<Rightarrow> string list \<Rightarrow> Sentence option" where
  "add_alternative e d sent prefix stem suffix =
     add_affixes e d
       (map (Pair PREFIX) prefix @ map (Pair STEM) stem @ map (Pair SUFFIX) suffix)
       0 (t_count sent) sent"

subsection \<open>issue_alternatives\<close>

definition issue_alternatives :: "Sentence \<Rightarrow> string \<Rightarrow> bool \<Rightarrow> Sentence \<times> bool" where
  "issue_alternatives sent w quote_found =
     (let ts = t_start sent; tc = t_count sent
      in if tc = 0 then (sent, False)
         else (sent\<lparr>word := (word sent)[ts := (word sent ! ts)\<lparr>unsplit_word := Some w\<rparr>],
                     post_quote := (post_quote sent)(ts \<mapsto> quote_found),
                     length_s := length_s sent + tc,
                     t_start := length_s sent + tc,
                     t_count := 0\<rparr>, True))"

text \<open>\<open>issue_sentence_word\<close>: one word as a group of its own.\<close>

definition issue_sentence_word :: "Env \<Rightarrow> Dictionary \<Rightarrow> Sentence \<Rightarrow> string \<Rightarrow> bool
    \<Rightarrow> Sentence option" where
  "issue_sentence_word e d sent s quote_found =
     do { sent1 \<leftarrow> add_alternative e d sent [] [s] [];
          Some (fst (issue_alternatives sent1 s quote_found)) }"

text \<open>A sentence is well formed when the array \<open>word\<close> holds the committed words and the
  staged group, and nothing else: this is what \<open>realloc\<close> to \<open>t_start + t_count + 1\<close>
  words keeps up, starting from the empty sentence.\<close>

definition wf_sent :: "Sentence \<Rightarrow> bool" where
  "wf_sent sent \<longleftrightarrow> length (word sent) = t_start sent + t_count sent"



text \<open>The components of a decomposition in the order of the loops, and the number of
  alternatives of the group's first slot before a call (0 for an empty group).\<close>

definition components :: "string list \<Rightarrow> string list \<Rightarrow> string list \<Rightarrow> (affixtype \<times> string) list" where
  "components prefix stem suffix =
     map (Pair PREFIX) prefix @ map (Pair STEM) stem @ map (Pair SUFFIX) suffix"

definition numalt_first :: "Sentence \<Rightarrow> nat" where
  "numalt_first sent =
     (if t_count sent = 0 then 0 else altlen (alternatives (word sent ! t_start sent)))"

subsection \<open>is_number\<close>

text \<open>The loop of \<open>is_number\<close> at the string \<open>s\<close>; \<open>c\<close> is the wide character last stored
  (\<open>mbrtowc\<close> stores none when it fails). The loop runs while \<open>*s != 0\<close> and \<open>0 < nb\<close>.\<close>

function is_number_loop :: "Env \<Rightarrow> string \<Rightarrow> nat \<Rightarrow> bool" where
  "is_number_loop e s c =
     (if s = [] then True
      else (let (nb, c1) = mbrtowc e s;
                c' = (if nb < 0 then c else c1)
            in if iswdigit e c' \<or> c' = 0xa0
               then (if 0 < nb then is_number_loop e (drop (nat nb) s) c' else True)
               else if hd s = CHR ''.'' \<or> hd s = CHR '','' \<or> hd s = CHR '':''
               then (if 0 < nb then is_number_loop e (drop 1 s) c' else True)
               else False))"
  by pat_completeness auto
termination
  by (relation "measure (\<lambda>(e, s, c). length s)") auto

declare is_number_loop.simps [simp del]

text \<open>\<open>is_number\<close>. The variable \<open>c\<close> is not initialised; the first \<open>mbrtowc\<close> stores it,
  since \<open>is_utf8_digit\<close> has decoded the same character.\<close>

definition is_number :: "Env \<Rightarrow> string \<Rightarrow> bool" where
  "is_number e s = (if \<not> is_utf8_digit e s then False else is_number_loop e s 0)"

subsection \<open>guess_misspelled_word\<close>

definition MAX_NUM_SPELL_GUESSES :: nat where
  "MAX_NUM_SPELL_GUESSES = 60"

text \<open>The pieces of a run-on suggestion: the text before the first space (\<open>strchr\<close>), and
  again for what follows it, up to the piece that has no space.\<close>

function split_runon :: "string \<Rightarrow> string list" where
  "split_runon s =
     (case dropWhile (\<lambda>c. c \<noteq> CHR '' '') s of
        [] \<Rightarrow> [s]
      | _ # rest \<Rightarrow> takeWhile (\<lambda>c. c \<noteq> CHR '' '') s # split_runon rest)"
  by pat_completeness auto
termination
proof (relation "measure length")
  fix s :: string and x rest
  assume "dropWhile (\<lambda>c. c \<noteq> CHR '' '') s = x # rest"
  then have "length (x # rest) \<le> length s"
    by (metis length_dropWhile_le)
  then show "(rest, s) \<in> measure length" by simp
qed simp

declare split_runon.simps [simp del]

text \<open>\<open>snprintf(str, MAX_WORD, "%.*s[~]", MAX_WORD-3, w)\<close>: at most \<open>MAX_WORD - 3\<close> bytes of
  the word, then the tag, the whole cut to \<open>MAX_WORD - 1\<close> bytes.\<close>

definition tag_word :: "Env \<Rightarrow> string \<Rightarrow> string \<Rightarrow> string" where
  "tag_word e w tag = take (MAX_WORD e - 1) (take (MAX_WORD e - 3) w @ tag)"

text \<open>The loop over the suggestions \<open>alternates[j]\<close>, with \<open>num_guesses\<close>.\<close>

fun guess_loop :: "Env \<Rightarrow> Dictionary \<Rightarrow> string list \<Rightarrow> nat \<Rightarrow> Sentence
    \<Rightarrow> (Sentence \<times> nat) option" where
  "guess_loop e d [] num_guesses sent = Some (sent, num_guesses)"
| "guess_loop e d (alt # alternates) num_guesses sent =
     do { (sent1, n1) \<leftarrow>
            (if CHR '' '' \<in> set alt
             then do { s1 \<leftarrow> add_alternative e d sent [] (split_runon alt) [];
                       Some (s1, num_guesses + 1) }
             else if boolean_dictionary_lookup d alt
             then do { s1 \<leftarrow> add_alternative e d sent [] [tag_word e alt ''[~]''] [];
                       Some (s1, num_guesses + 1) }
             else Some (sent, num_guesses));
          if n1 > MAX_NUM_SPELL_GUESSES then Some (sent1, n1)
          else guess_loop e d alternates n1 sent1 }"

text \<open>\<open>guess_misspelled_word\<close>; \<open>sc\<close> is \<open>dict->spell_checker\<close>, which the caller has
  checked.\<close>

definition guess_misspelled_word :: "Env \<Rightarrow> Dictionary \<Rightarrow> Spell_Checker \<Rightarrow> Sentence \<Rightarrow> string
    \<Rightarrow> bool \<Rightarrow> (Sentence \<times> bool) option" where
  "guess_misspelled_word e d sc sent w quote_found =
     (if is_number e w then Some (sent, False)
      else if spellcheck_test sc w then Some (sent, False)
      else do { (sent1, num_guesses) \<leftarrow> guess_loop e d (spellcheck_suggest sc w) 0 sent;
                Some (if num_guesses > 0 then fst (issue_alternatives sent1 w quote_found)
                      else sent1,
                      num_guesses > 0) })"

subsection \<open>add_alternative_with_subscr\<close>

text \<open>A pointer that may be NULL, passed as an array with its count \<open>(p ? 1 : 0)\<close>.\<close>

definition opt_list :: "'a option \<Rightarrow> 'a list" where
  "opt_list p = (case p of None \<Rightarrow> [] | Some x \<Rightarrow> [x])"

text \<open>The loop over the stem subscripts. The stem \<open>w\<close> is the word (at most \<open>MAX_WORD\<close>
  bytes) followed by the subscript (at most \<open>MAX_WORD - 1\<close> bytes); it is looked up with
  \<open>boolean_dictionary_lookup\<close> only. The call of \<open>add_alternative\<close> here always counts one
  suffix: when \<open>suffix\<close> is NULL, \<open>add_alternative\<close> reads through the NULL pointer once it
  comes to the suffix, which it does unless its first component is the empty string.\<close>

primrec subscr_loop :: "Env \<Rightarrow> Dictionary \<Rightarrow> string list \<Rightarrow> string option \<Rightarrow> string
    \<Rightarrow> string option \<Rightarrow> Sentence \<Rightarrow> bool \<Rightarrow> (Sentence \<times> bool) option" where
  "subscr_loop e d [] prefix wd suffix sent word_is_in_dict = Some (sent, word_is_in_dict)"
| "subscr_loop e d (ss # stemsubscr) prefix wd suffix sent word_is_in_dict =
     (let wlen = min (length wd) (MAX_WORD e);
          slen = min (length ss) (MAX_WORD e - 1);
          w = take wlen wd @ take slen ss
      in if boolean_dictionary_lookup d w
         then do { sent1 \<leftarrow>
                     (case suffix of
                        Some suf \<Rightarrow> add_alternative e d sent (opt_list prefix) [w] [suf]
                      | None \<Rightarrow> if hd (opt_list prefix @ [w]) = [] then Some sent else None);
                   subscr_loop e d stemsubscr prefix wd suffix sent1 True }
         else subscr_loop e d stemsubscr prefix wd suffix sent word_is_in_dict)"

text \<open>\<open>add_alternative_with_subscr\<close>; \<open>afdict\<close> is the affix table, known to be non-NULL.\<close>

definition add_alternative_with_subscr :: "Env \<Rightarrow> Dictionary \<Rightarrow> Afdict \<Rightarrow> Sentence
    \<Rightarrow> string option \<Rightarrow> string \<Rightarrow> string option \<Rightarrow> (Sentence \<times> bool) option" where
  "add_alternative_with_subscr e d afdict sent prefix wd suffix =
     (if STEMSUBSCR afdict = []
      then do { sent1 \<leftarrow> add_alternative e d sent (opt_list prefix) [wd] (opt_list suffix);
                Some (sent1, INFIX_MARK d \<noteq> NUL) }
      else subscr_loop e d (STEMSUBSCR afdict) prefix wd suffix sent False)"

subsection \<open>strip_right\<close>

definition MAX_STRIP :: nat where
  "MAX_STRIP = 10"

text \<open>The inner loop of \<open>strip_right\<close> over the RPUNC entries and then the UNITS entries
  (the flag tells which), for the word \<open>w\<close> that ends at \<open>temp_wend\<close>, \<open>n\<close> bytes in. It
  gives the entry stripped, or \<open>None\<close> when the outer loop is left: no entry matches, or a
  unit is reached and the word does not start with a number, or a unit is reached after a
  unit.\<close>

fun strip_scan :: "bool \<Rightarrow> bool \<Rightarrow> string \<Rightarrow> nat \<Rightarrow> (bool \<times> string) list
    \<Rightarrow> (bool \<times> string) option" where
  "strip_scan starts_with_number previous_is_unit w n [] = None"
| "strip_scan starts_with_number previous_is_unit w n ((unit, t) # rest) =
     (if unit \<and> \<not> starts_with_number then None
      else if unit \<and> previous_is_unit then None
      else if n < length t then strip_scan starts_with_number previous_is_unit w n rest
      else if take (length t) (drop (n - length t) w) = t then Some (unit, t)
      else strip_scan starts_with_number previous_is_unit w n rest)"

definition strip_entries :: "Afdict \<Rightarrow> (bool \<times> string) list" where
  "strip_entries afdict = map (Pair False) (RPUNC afdict) @ map (Pair True) (UNITS afdict)"

text \<open>The variables of \<open>strip_right\<close>: \<open>wend\<close> and \<open>temp_wend\<close> as offsets from \<open>w\<close>, and
  \<open>r_stripped\<close> as the entries written so far (\<open>r_stripped[nrs] = t\<close> writes entry \<open>nrs\<close>,
  and \<open>nrs\<close> entries are written before).\<close>

record strip_state =
  nrs :: nat
  temp_wend :: nat
  wend :: nat
  n_r_stripped :: nat
  r_stripped :: "string list"
  previous_is_unit :: bool
  word_is_in_dict :: bool

text \<open>One pass of the outer loop: \<open>None\<close> when the loop is left (the middle component
  tells whether this was by finding the word in the dictionary).\<close>

definition strip_step :: "Env \<Rightarrow> Dictionary \<Rightarrow> Afdict \<Rightarrow> bool \<Rightarrow> string \<Rightarrow> strip_state
    \<Rightarrow> strip_state + strip_state" where
  "strip_step e d afdict starts_with_number w st =
     (if temp_wend st = 0 then Inl st
      else if find_word_in_dict d (take (min (temp_wend st) (MAX_WORD e)) w)
      then Inl (st\<lparr>word_is_in_dict := True\<rparr>)
      else (case strip_scan starts_with_number (previous_is_unit st) w (temp_wend st)
                   (strip_entries afdict) of
              None \<Rightarrow> Inl st
            | Some (unit, t) \<Rightarrow>
                Inr ((if unit then st\<lparr>previous_is_unit := True\<rparr>
                      else st\<lparr>previous_is_unit := False, n_r_stripped := nrs st,
                              wend := temp_wend st\<rparr>)
                     \<lparr>r_stripped := r_stripped st @ [t],
                      temp_wend := temp_wend st - length t\<rparr>)))"

text \<open>\<open>for (nrs = 0; nrs < MAX_STRIP; nrs++)\<close>, with \<open>k = MAX_STRIP - nrs\<close> passes left.\<close>

primrec strip_right_loop :: "Env \<Rightarrow> Dictionary \<Rightarrow> Afdict \<Rightarrow> bool \<Rightarrow> string \<Rightarrow> nat \<Rightarrow> strip_state
    \<Rightarrow> strip_state" where
  "strip_right_loop e d afdict starts_with_number w 0 st = st"
| "strip_right_loop e d afdict starts_with_number w (Suc k) st =
     (case strip_step e d afdict starts_with_number w st of
        Inl st' \<Rightarrow> st'
      | Inr st' \<Rightarrow> strip_right_loop e d afdict starts_with_number w k (st'\<lparr>nrs := nrs st + 1\<rparr>))"

text \<open>\<open>strip_right\<close> for the word \<open>w\<close> of \<open>n\<close> bytes: the new \<open>wend\<close> (as an offset), the
  array \<open>r_stripped\<close>, \<open>*n_r_stripped\<close> and \<open>*word_is_in_dict\<close>.\<close>

definition strip_right :: "Env \<Rightarrow> Dictionary \<Rightarrow> string \<Rightarrow> nat \<Rightarrow> bool
    \<Rightarrow> nat \<times> string list \<times> nat \<times> bool" where
  "strip_right e d w n in_dict =
     (case affix_table d of
        None \<Rightarrow> (n, [], 0, in_dict)
      | Some afdict \<Rightarrow>
          (let starts_with_number = is_utf8_digit e w;
               st = strip_right_loop e d afdict starts_with_number w MAX_STRIP
                      \<lparr>nrs = 0, temp_wend = n, wend = n, n_r_stripped = 0, r_stripped = [],
                       previous_is_unit = False, word_is_in_dict = in_dict\<rparr>;
               st' = (if \<not> previous_is_unit st \<or> starts_with_number
                      then st\<lparr>n_r_stripped := nrs st, wend := temp_wend st\<rparr> else st)
           in (wend st', r_stripped st', n_r_stripped st', word_is_in_dict st')))"

text \<open>The entries the passes of \<open>strip_right_loop\<close> strip, in the order of stripping, each
  with the flag of the inner loop: true for a UNITS entry, false for an RPUNC entry.\<close>

primrec strip_trace :: "Env \<Rightarrow> Dictionary \<Rightarrow> Afdict \<Rightarrow> bool \<Rightarrow> string \<Rightarrow> nat \<Rightarrow> strip_state
    \<Rightarrow> (bool \<times> string) list" where
  "strip_trace e d afdict starts_with_number w 0 st = []"
| "strip_trace e d afdict starts_with_number w (Suc k) st =
     (case strip_step e d afdict starts_with_number w st of
        Inl st' \<Rightarrow> []
      | Inr st' \<Rightarrow>
          (previous_is_unit st', last (r_stripped st'))
          # strip_trace e d afdict starts_with_number w k (st'\<lparr>nrs := nrs st + 1\<rparr>))"

definition strip_init :: "nat \<Rightarrow> bool \<Rightarrow> strip_state" where
  "strip_init n in_dict =
     \<lparr>nrs = 0, temp_wend = n, wend = n, n_r_stripped = 0, r_stripped = [],
      previous_is_unit = False, word_is_in_dict = in_dict\<rparr>"

fun no_adjacent_units :: "(bool \<times> string) list \<Rightarrow> bool" where
  "no_adjacent_units ((u1, t1) # (u2, t2) # tr) =
     (\<not> (u1 \<and> u2) \<and> no_adjacent_units ((u2, t2) # tr))"
| "no_adjacent_units tr = True"

text \<open>The stem that \<open>add_alternative_with_subscr\<close> looks up for a subscript.\<close>

definition subscripted_stem :: "Env \<Rightarrow> string \<Rightarrow> string \<Rightarrow> string" where
  "subscripted_stem e wd ss =
     take (min (length wd) (MAX_WORD e)) wd @ take (min (length ss) (MAX_WORD e - 1)) ss"

subsection \<open>strip_left\<close>

text \<open>The loops of \<open>strip_left\<close> at the string \<open>w\<close>: the first LPUNC entry that \<open>w\<close> starts
  with is issued as a word and skipped, until \<open>w\<close> starts with no entry. An empty entry
  matches without moving \<open>w\<close>, and the loop never ends: \<open>None\<close>.\<close>

function strip_left_loop :: "Env \<Rightarrow> Dictionary \<Rightarrow> string list \<Rightarrow> string \<Rightarrow> bool \<Rightarrow> Sentence
    \<Rightarrow> (string \<times> Sentence) option" where
  "strip_left_loop e d lpunc w quote_found sent =
     (case find (\<lambda>p. take (length p) w = p) lpunc of
        None \<Rightarrow> Some (w, sent)
      | Some p \<Rightarrow>
          if p = [] then None
          else do { sent1 \<leftarrow> issue_sentence_word e d sent p quote_found;
                    strip_left_loop e d lpunc (drop (length p) w) quote_found sent1 })"
  by pat_completeness auto
termination
proof (relation "measure (\<lambda>(e, d, lpunc, w, q, sent). length w)")
  fix e :: Env and d :: Dictionary and lpunc :: "string list" and w :: string
    and quote_found :: bool and sent sent1 :: Sentence and p :: string
  assume "find (\<lambda>p. take (length p) w = p) lpunc = Some p" "p \<noteq> []"
  then have "take (length p) w = p" "p \<noteq> []" by (auto simp: find_Some_iff)
  then have "w \<noteq> []" by auto
  then show "((e, d, lpunc, drop (length p) w, quote_found, sent1), e, d, lpunc, w, quote_found, sent)
      \<in> measure (\<lambda>(e, d, lpunc, w, q, sent). length w)"
    using \<open>p \<noteq> []\<close> by simp
qed simp

declare strip_left_loop.simps [simp del]

definition strip_left :: "Env \<Rightarrow> Dictionary \<Rightarrow> Sentence \<Rightarrow> string \<Rightarrow> bool
    \<Rightarrow> (string \<times> Sentence) option" where
  "strip_left e d sent w quote_found =
     (case affix_table d of
        None \<Rightarrow> Some (w, sent)
      | Some afdict \<Rightarrow> strip_left_loop e d (LPUNC afdict) w quote_found sent)"

subsection \<open>suffix_split\<close>

text \<open>The loop over the prefixes, for the word \<open>w\<close> of \<open>n\<close> bytes and the suffix of the
  current pass (its length \<open>len\<close>; \<open>None\<close> and 0 in the last pass). \<open>sz\<close> is an \<open>int\<close>:
  when the prefix and the suffix together are longer than the word it is negative, and
  \<open>strncpy\<close> with that size runs over \<open>newword\<close>.\<close>

primrec prefix_loop :: "Env \<Rightarrow> Dictionary \<Rightarrow> Afdict \<Rightarrow> string \<Rightarrow> nat \<Rightarrow> nat \<Rightarrow> string option
    \<Rightarrow> string list \<Rightarrow> Sentence \<Rightarrow> bool \<Rightarrow> (Sentence \<times> bool) option" where
  "prefix_loop e d afdict w n len suffix [] sent word_can_split = Some (sent, word_can_split)"
| "prefix_loop e d afdict w n len suffix (p # prefixes) sent word_can_split =
     (if take (length p) w = p
      then (let sz = min (int n - int len - int (length p)) (int (MAX_WORD e))
            in if sz < 0 then None
               else (let newword = take (nat sz) (drop (length p) w)
                     in if boolean_dictionary_lookup d newword
                        then do { (sent1, b) \<leftarrow> add_alternative_with_subscr e d afdict sent
                                                  (Some p) newword suffix;
                                  prefix_loop e d afdict w n len suffix prefixes sent1
                                    (word_can_split \<or> b) }
                        else prefix_loop e d afdict w n len suffix prefixes sent
                               word_can_split))
      else prefix_loop e d afdict w n len suffix prefixes sent word_can_split)"

text \<open>The loop over the suffixes; after the last one comes the pass without suffix.\<close>

primrec suffix_loop :: "Env \<Rightarrow> Dictionary \<Rightarrow> Afdict \<Rightarrow> string \<Rightarrow> nat \<Rightarrow> string list
    \<Rightarrow> Sentence \<Rightarrow> bool \<Rightarrow> (Sentence \<times> bool) option" where
  "suffix_loop e d afdict w n [] sent word_can_split =
     prefix_loop e d afdict w n 0 None (PRE afdict) sent word_can_split"
| "suffix_loop e d afdict w n (suf # suffixes) sent word_can_split =
     (let len = length suf
      in if n < len then suffix_loop e d afdict w n suffixes sent word_can_split
         else do {
           (sent1, can1) \<leftarrow>
             (if take len (drop (n - len) w) = suf
              then (let newword = take (min (n - len) (MAX_WORD e)) w
                    in if find_word_in_dict d newword
                       then do { (sent', b) \<leftarrow> add_alternative_with_subscr e d afdict sent
                                                 None newword (Some suf);
                                 Some (sent', word_can_split \<or> b) }
                       else Some (sent, word_can_split))
              else Some (sent, word_can_split));
           (sent2, can2) \<leftarrow> prefix_loop e d afdict w n len (Some suf) (PRE afdict) sent1 can1;
           suffix_loop e d afdict w n suffixes sent2 can2 })"

definition suffix_split :: "Env \<Rightarrow> Dictionary \<Rightarrow> Sentence \<Rightarrow> string \<Rightarrow> nat
    \<Rightarrow> (Sentence \<times> bool) option" where
  "suffix_split e d sent w n =
     (case affix_table d of
        None \<Rightarrow> Some (sent, False)
      | Some afdict \<Rightarrow> suffix_loop e d afdict w n (SUF afdict) sent False)"

subsection \<open>mprefix_split\<close>

definition HEB_PRENUM_MAX :: nat where
  "HEB_PRENUM_MAX = 5"

definition HEB_MPREFIX_MAX :: nat where
  "HEB_MPREFIX_MAX = 16"

definition HEB_UTF8_BYTES :: nat where
  "HEB_UTF8_BYTES = 2"

text \<open>The two bytes of the Hebrew letter vav, and \<open>HEB_CHAREQ(s, c)\<close>, that is
  \<open>strncmp(s, c, HEB_UTF8_BYTES) == 0\<close>.\<close>

definition vav :: string where
  "vav = [CHR 0xD7, CHR 0x95]"

definition HEB_CHAREQ :: "string \<Rightarrow> string \<Rightarrow> bool" where
  "HEB_CHAREQ s c \<longleftrightarrow> take HEB_UTF8_BYTES s = take HEB_UTF8_BYTES c"

text \<open>One pass of the \<open>do ... while\<close> of \<open>mprefix_split\<close>, at the string \<open>w\<close>, with the
  prefixes split off so far and the indices marked in \<open>pseen\<close>. The inner loop stops at the
  first entry that is not skipped and that \<open>w\<close> starts with. The result is \<open>Inl\<close> when the
  outer loop ends with this pass: no entry is found; or a non-vav prefix stands before a
  single vav; or nothing is left of the word (\<open>sz = 0\<close>), and the prefixes are added alone;
  or the prefix found is the empty string or \<open>HEB_PRENUM_MAX\<close> prefixes are split off.
  Else it is \<open>Inr\<close>, with the variables of the next pass, which starts at the rest
  of the word. In the last two cases the rest, if it is a word, is added behind the
  prefixes.\<close>

definition mprefix_pass :: "Env \<Rightarrow> Dictionary \<Rightarrow> string list \<Rightarrow> string \<Rightarrow> string list \<Rightarrow> nat list
    \<Rightarrow> Sentence \<Rightarrow> bool
    \<Rightarrow> ((Sentence \<times> bool) + (string \<times> string list \<times> nat list \<times> Sentence \<times> bool)) option" where
  "mprefix_pass e d mprefix w split_prefix pseen sent in_dict =
     (case find (\<lambda>i. i \<notin> set pseen
                     \<and> \<not> (split_prefix \<noteq> [] \<and> HEB_CHAREQ (mprefix ! i) vav \<and> HEB_CHAREQ w vav)
                     \<and> take (length (mprefix ! i)) w = mprefix ! i)
                [0 ..< length mprefix] of
        None \<Rightarrow> Some (Inl (sent, in_dict))
      | Some i \<Rightarrow>
          (let plen = length (mprefix ! i);
               sz = length w - plen;
               newword = drop plen w
           in if \<not> HEB_CHAREQ (mprefix ! i) vav \<and> HEB_CHAREQ newword vav
                 \<and> \<not> HEB_CHAREQ (drop HEB_UTF8_BYTES newword) vav
              then Some (Inl (sent, in_dict))
              else (let newword' =
                          (if \<not> HEB_CHAREQ (mprefix ! i) vav \<and> HEB_CHAREQ newword vav
                              \<and> HEB_UTF8_BYTES + 1 < length newword
                           then drop HEB_UTF8_BYTES newword else newword);
                        split_prefix' = split_prefix @ [mprefix ! i]
                    in if sz = 0
                       then do { sent1 \<leftarrow> add_alternative e d sent split_prefix' [] [];
                                 Some (Inl (sent1, True)) }
                       else do {
                         (sent1, found) \<leftarrow>
                           (if find_word_in_dict d newword'
                            then do { s \<leftarrow> add_alternative e d sent split_prefix' [newword'] [];
                                      Some (s, True) }
                            else Some (sent, in_dict));
                         if plen \<noteq> 0 \<and> length split_prefix' < HEB_PRENUM_MAX
                         then Some (Inr (newword', split_prefix', i # pseen, sent1, found))
                         else Some (Inl (sent1, found)) })))"

lemma mprefix_pass_Inr:
  "mprefix_pass e d mprefix w sp pseen s b = Some (Inr (w', sp', pseen', s', b')) \<Longrightarrow>
   length sp' = Suc (length sp) \<and> length sp' < HEB_PRENUM_MAX"
  by (auto simp: mprefix_pass_def Let_def split: option.splits if_splits bind_splits)

text \<open>The \<open>do ... while\<close> of \<open>mprefix_split\<close>.\<close>

function mprefix_loop :: "Env \<Rightarrow> Dictionary \<Rightarrow> string list \<Rightarrow> string \<Rightarrow> string list \<Rightarrow> nat list
    \<Rightarrow> Sentence \<Rightarrow> bool \<Rightarrow> (Sentence \<times> bool) option" where
  "mprefix_loop e d mprefix w split_prefix pseen sent in_dict =
     (case mprefix_pass e d mprefix w split_prefix pseen sent in_dict of
        None \<Rightarrow> None
      | Some (Inl r) \<Rightarrow> Some r
      | Some (Inr (w', split_prefix', pseen', sent', in_dict')) \<Rightarrow>
          mprefix_loop e d mprefix w' split_prefix' pseen' sent' in_dict')"
  by pat_completeness auto
termination
  by (relation "measure (\<lambda>(e, d, mprefix, w, split_prefix, pseen, sent, b).
        HEB_PRENUM_MAX - length split_prefix)") (auto dest: mprefix_pass_Inr)

declare mprefix_loop.simps [simp del]

text \<open>\<open>mprefix_split\<close> of the word copied into \<open>word\<close>. The assertion
  \<open>mp_strippable <= HEB_MPREFIX_MAX\<close> ends the program when it fails.\<close>

definition mprefix_split :: "Env \<Rightarrow> Dictionary \<Rightarrow> Sentence \<Rightarrow> string \<Rightarrow> (Sentence \<times> bool) option" where
  "mprefix_split e d sent w =
     (case affix_table d of
        None \<Rightarrow> Some (sent, False)
      | Some afdict \<Rightarrow>
          if MPRE afdict = [] then Some (sent, False)
          else if \<not> length (MPRE afdict) \<le> HEB_MPREFIX_MAX then None
          else mprefix_loop e d (MPRE afdict) w [] [] sent False)"

subsection \<open>Character classes of the tokenizer\<close>

text \<open>\<open>is_quote\<close> and \<open>is_bullet\<close>: \<open>wcschr\<close> in the wide string of the class; the null
  wide character is found at the end of every string.\<close>

definition is_quote :: "Dictionary \<Rightarrow> nat \<Rightarrow> bool" where
  "is_quote d wc = (case quotes d of None \<Rightarrow> False | Some qs \<Rightarrow> wc \<in> set qs \<or> wc = 0)"

definition is_bullet :: "Dictionary \<Rightarrow> nat \<Rightarrow> bool" where
  "is_bullet d wc = (case bullets d of None \<Rightarrow> False | Some bs \<Rightarrow> wc \<in> set bs \<or> wc = 0)"

definition is_bullet_str :: "Env \<Rightarrow> Dictionary \<Rightarrow> string \<Rightarrow> bool" where
  "is_bullet_str e d str = (let (nb, c) = mbrtowc e str in if 0 > nb then False else is_bullet d c)"

definition is_space :: "Env \<Rightarrow> nat \<Rightarrow> bool" where
  "is_space e wc = (if iswspace e wc then True else if 0xa0 = wc then True else False)"

subsection \<open>is_capitalizable\<close>

text \<open>\<open>is_capitalizable\<close>. It reads the first alternative of the word before
  \<open>curr_word\<close>, and \<open>post_quote[curr_word]\<close>: \<open>None\<close> when there is no such word or
  alternative, or when that \<open>post_quote\<close> entry was never written.\<close>

definition is_capitalizable :: "Env \<Rightarrow> Dictionary \<Rightarrow> Sentence \<Rightarrow> nat \<Rightarrow> bool option" where
  "is_capitalizable e d sent curr_word =
     (let first_word = (if left_wall_defined d then 1 else 0 :: nat);
          after_quote =
            (if curr_word < length_s sent
             then (case post_quote sent curr_word of None \<Rightarrow> None | Some b \<Rightarrow> Some b)
             else Some False)
      in if curr_word = first_word then Some True
         else if curr_word > 0
         then (if curr_word - 1 < length (word sent)
               then (case alternatives (word sent ! (curr_word - 1)) of
                       [] \<Rightarrow> None
                     | a # _ \<Rightarrow>
                         if a = '':'' \<or> a = ''.'' then Some True
                         else if is_bullet_str e d a then Some True
                         else after_quote)
               else None)
         else after_quote)"

subsection \<open>separate_word\<close>

record Parse_Options =
  use_spell_guess :: bool

definition is_proper_name :: "Env \<Rightarrow> string \<Rightarrow> bool" where
  "is_proper_name e w = is_utf8_upper e w"

text \<open>\<open>sz = MIN(wend-w, MAX_WORD); strncpy(word, w, sz); word[sz] = '\0'\<close>.\<close>

definition copy_word :: "Env \<Rightarrow> string \<Rightarrow> nat \<Rightarrow> string" where
  "copy_word e w n = take (min n (MAX_WORD e)) w"

text \<open>The last loop of \<open>separate_word\<close> issues \<open>r_stripped[i]\<close> for \<open>i\<close> from
  \<open>n_r_stripped - 1\<close> down to 0; \<open>issue_words\<close> issues the strings of a list in its
  order.\<close>

primrec issue_words :: "Env \<Rightarrow> Dictionary \<Rightarrow> string list \<Rightarrow> Sentence \<Rightarrow> Sentence option" where
  "issue_words e d [] sent = Some sent"
| "issue_words e d (s # ss) sent =
     do { sent1 \<leftarrow> issue_sentence_word e d sent s False;
          issue_words e d ss sent1 }"

text \<open>\<open>separate_word\<close> behind the strips, in the order of the source. First the word is
  added as it is when \<open>boolean_dictionary_lookup\<close> finds it, and the splits are tried:
  \<open>suffix_split\<close>, \<open>suffix_split\<close> of the downcased word when the word is capitalized in
  a capitalizable position or after a quote, and \<open>mprefix_split\<close>. The result is the
  sentence, \<open>word_can_split\<close> and the buffer \<open>downcase\<close> (empty until it is written).
  The downcased word is split in the buffer \<open>downcase\<close> of \<open>MAX_WORD + 1\<close> bytes, up to
  \<open>downcase + (wend - w)\<close>: for a word of more than \<open>MAX_WORD + 1\<close> bytes this points
  behind the buffer, and the result is \<open>None\<close>.\<close>

definition try_splits :: "Env \<Rightarrow> Dictionary \<Rightarrow> Sentence \<Rightarrow> string \<Rightarrow> nat \<Rightarrow> bool
    \<Rightarrow> (Sentence \<times> bool \<times> string) option" where
  "try_splits e d sent w n quote_found =
     (let wd = copy_word e w n
      in do {
        sent1 \<leftarrow> (if boolean_dictionary_lookup d wd then add_alternative e d sent [] [wd] []
                  else Some sent);
        (sent2, can1) \<leftarrow> suffix_split e d sent1 w n;
        cap \<leftarrow> is_capitalizable e d sent2 (length_s sent2);
        (sent3, can2, downcase) \<leftarrow>
          (if (cap \<or> quote_found) \<and> is_utf8_upper e wd
           then (if MAX_WORD e + 1 < n then None
                 else do { (s, b) \<leftarrow> suffix_split e d sent2 (downcase_utf8_str e wd) n;
                           Some (s, can1 \<or> b, downcase_utf8_str e wd) })
           else Some (sent2, can1, []));
        (sent4, b3) \<leftarrow> mprefix_split e d sent3 wd;
        Some (sent4, can2 \<or> b3, downcase) })"

text \<open>The block \<open>if (is_utf8_upper(word))\<close>: the capitalized word is added when it did not
  split and matches a regular expression; its downcased form is added when the position
  is capitalizable (or a quote was found) and the dictionary has it. \<open>in_dict\<close> is
  \<open>word_is_in_dict\<close> before the block; the result has it after the line
  \<open>word_is_in_dict |= word_can_split\<close>.\<close>

definition add_capitalized :: "Env \<Rightarrow> Dictionary \<Rightarrow> Sentence \<Rightarrow> string \<Rightarrow> bool \<Rightarrow> bool \<Rightarrow> string
    \<Rightarrow> bool \<Rightarrow> (Sentence \<times> bool \<times> string) option" where
  "add_capitalized e d sent wd word_can_split in_dict downcase quote_found =
     (if is_utf8_upper e wd
      then do {
        sent1 \<leftarrow> (if \<not> word_can_split \<and> match_regex d wd \<noteq> None
                  then add_alternative e d sent [] [wd] [] else Some sent);
        cap \<leftarrow> is_capitalizable e d sent1 (length_s sent1);
        if cap \<or> quote_found
        then (if boolean_dictionary_lookup d (downcase_utf8_str e wd)
              then do { s \<leftarrow> add_alternative e d sent1 [] [downcase_utf8_str e wd] [];
                        Some (s, True, downcase_utf8_str e wd) }
              else Some (sent1, in_dict \<or> word_can_split, downcase_utf8_str e wd))
        else Some (sent1, in_dict \<or> word_can_split, downcase) }
      else Some (sent, in_dict \<or> word_can_split, downcase))"

text \<open>The regular expressions, for a word that is not in the dictionary or under the
  toggle "parallel-regex"; under the toggle "parallels-regex" the downcased word (when
  there is one) is tagged with \<open>[!]\<close> and that string is matched and added.\<close>

definition add_regex :: "Env \<Rightarrow> Dictionary \<Rightarrow> Sentence \<Rightarrow> string \<Rightarrow> bool \<Rightarrow> string
    \<Rightarrow> (Sentence \<times> bool) option" where
  "add_regex e d sent wd in_dict downcase =
     (if \<not> in_dict \<or> test_enabled e ''parallel-regex''
      then (let wp = (if test_enabled e ''parallels-regex''
                      then tag_word e (if downcase \<noteq> [] then downcase else wd) ''[!]''
                      else wd)
            in if match_regex d wp \<noteq> None
               then do { s \<leftarrow> add_alternative e d sent [] [wp] []; Some (s, True) }
               else Some (sent, in_dict))
      else Some (sent, in_dict))"

text \<open>The spell guesses, and the commit: \<open>issue_alternatives\<close> when the guesses issued
  nothing, and \<open>issue_sentence_word\<close> of the word when that issued nothing either.\<close>

definition guess_and_issue :: "Env \<Rightarrow> Dictionary \<Rightarrow> Parse_Options \<Rightarrow> Sentence \<Rightarrow> string \<Rightarrow> bool
    \<Rightarrow> bool \<Rightarrow> Sentence option" where
  "guess_and_issue e d opts sent wd in_dict quote_found =
     do { (sent1, issued) \<leftarrow>
            (case spell_checker d of
               Some sc \<Rightarrow>
                 if \<not> in_dict \<and> \<not> is_proper_name e wd \<and> use_spell_guess opts
                 then guess_misspelled_word e d sc sent wd quote_found
                 else Some (sent, False)
             | None \<Rightarrow> Some (sent, False));
          (let (sent2, issued') =
                 (if \<not> issued then issue_alternatives sent1 wd quote_found else (sent1, issued))
           in if \<not> issued' then issue_sentence_word e d sent2 wd quote_found else Some sent2) }"

text \<open>The four parts in a row. \<open>limit_hit\<close> is \<open>n_r_stripped >= MAX_STRIP\<close>, which sets
  \<open>word_is_in_dict\<close>.\<close>

definition separate_word_core :: "Env \<Rightarrow> Dictionary \<Rightarrow> Parse_Options \<Rightarrow> Sentence \<Rightarrow> string
    \<Rightarrow> nat \<Rightarrow> bool \<Rightarrow> bool \<Rightarrow> Sentence option" where
  "separate_word_core e d opts sent w n limit_hit quote_found =
     (let wd = copy_word e w n
      in do {
        (sent1, word_can_split, downcase1) \<leftarrow> try_splits e d sent w n quote_found;
        (sent2, in_dict2, downcase2) \<leftarrow>
          add_capitalized e d sent1 wd word_can_split
            (if limit_hit then True else boolean_dictionary_lookup d wd) downcase1 quote_found;
        (sent3, in_dict3) \<leftarrow> add_regex e d sent2 wd in_dict2 downcase2;
        guess_and_issue e d opts sent3 wd in_dict3 quote_found })"

text \<open>\<open>separate_word\<close> for the word \<open>w\<close> of \<open>n\<close> bytes.\<close>

definition separate_word :: "Env \<Rightarrow> Dictionary \<Rightarrow> Parse_Options \<Rightarrow> Sentence \<Rightarrow> string \<Rightarrow> nat
    \<Rightarrow> bool \<Rightarrow> Sentence option" where
  "separate_word e d opts sent w n quote_found =
     (if \<not> find_word_in_dict d (copy_word e w n)
      then do {
        (w1, sent1) \<leftarrow> strip_left e d sent w quote_found;
        if n \<le> length w - length w1 then Some sent1
        else (let (wend1, rs, nrs1, in_dict) =
                    strip_right e d w1 (n - (length w - length w1)) False
              in do { sent2 \<leftarrow> separate_word_core e d opts sent1 w1 wend1 (nrs1 \<ge> MAX_STRIP)
                                 quote_found;
                      issue_words e d (rev (take (if nrs1 \<ge> MAX_STRIP then 0 else nrs1) rs))
                        sent2 }) }
      else do { sent2 \<leftarrow> separate_word_core e d opts sent w n False quote_found;
                issue_words e d [] sent2 })"

text \<open>The buffer \<open>word\<close> of \<open>separate_word\<close> behind the strips (the second
  \<open>strncpy(word, w, sz)\<close>): \<open>None\<close> when \<open>separate_word\<close> does not get there.\<close>

definition stripped_word :: "Env \<Rightarrow> Dictionary \<Rightarrow> Sentence \<Rightarrow> string \<Rightarrow> nat \<Rightarrow> bool
    \<Rightarrow> string option" where
  "stripped_word e d sent w n quote_found =
     (if \<not> find_word_in_dict d (copy_word e w n)
      then do {
        (w1, sent1) \<leftarrow> strip_left e d sent w quote_found;
        if n \<le> length w - length w1 then None
        else (let (wend1, rs, nrs1, in_dict) =
                    strip_right e d w1 (n - (length w - length w1)) False
              in Some (copy_word e w1 wend1)) }
      else Some (copy_word e w n))"

definition opts_off :: Parse_Options where
  "opts_off = \<lparr>use_spell_guess = False\<rparr>"

definition opts_on :: Parse_Options where
  "opts_on = \<lparr>use_spell_guess = True\<rparr>"


definition show_sent :: "Sentence option \<Rightarrow> (string list \<times> string option) list option" where
  "show_sent r = map_option (\<lambda>s. map (\<lambda>w. (alternatives w, unsplit_word w)) (word s)) r"

subsection \<open>separate_sentence\<close>

text \<open>The result of a scanning loop that can \<open>goto failure\<close>.\<close>

datatype 'a scan = Failure | Done 'a

text \<open>The loop that skips white space and quotation marks, at \<open>word_start\<close>, with the
  value \<open>nb\<close> and character \<open>c\<close> of the last \<open>mbrtowc\<close>: it gives the new \<open>word_start\<close> and
  \<open>quote_found\<close>.\<close>

function skip_loop :: "Env \<Rightarrow> Dictionary \<Rightarrow> string \<Rightarrow> int \<Rightarrow> nat \<Rightarrow> bool \<Rightarrow> bool
    \<Rightarrow> (string \<times> bool) scan" where
  "skip_loop e d word_start nb c isq quote_found =
     (if is_space e c \<or> isq
      then (let word_start' = drop (nat nb) word_start;
                (nb', c') = mbrtowc e word_start'
            in if 0 = nb' then Done (word_start', quote_found)
               else if 0 > nb' then Failure
               else skip_loop e d word_start' nb' c' (is_quote d c')
                      (if is_quote d c' then True else quote_found))
      else Done (word_start, quote_found))"
  by pat_completeness auto
termination
proof (relation "measure (\<lambda>(e, d, s, nb, c, isq, q). length (drop (nat nb) s))")
  fix e :: Env and d :: Dictionary and word_start :: string and nb :: int and c :: nat
    and isq quote_found :: bool and x :: string and xa :: "int \<times> nat" and xb :: int and y :: nat
  assume a: "x = drop (nat nb) word_start" "xa = mbrtowc e x" "(xb, y) = xa" "0 \<noteq> xb" "\<not> 0 > xb"
  then have "x \<noteq> []" by (auto simp: mbrtowc_def split: if_splits)
  then show "((e, d, x, xb, y, is_quote d y, if is_quote d y then True else quote_found),
        e, d, word_start, nb, c, isq, quote_found)
       \<in> measure (\<lambda>(e, d, s, nb, c, isq, q). length (drop (nat nb) s))"
    using a by simp
qed simp

declare skip_loop.simps [simp del]

text \<open>The loop that finds \<open>word_end\<close>, started at \<open>word_start\<close>: \<open>mbrtowc\<close>, the check
  for failure, the test of the \<open>while\<close>, and the step.\<close>

function find_word_end :: "Env \<Rightarrow> Dictionary \<Rightarrow> string \<Rightarrow> string scan" where
  "find_word_end e d word_end =
     (let (nb, c) = mbrtowc e word_end
      in if 0 > nb then Failure
         else if \<not> is_space e c \<and> \<not> is_quote d c \<and> c \<noteq> 0 \<and> 0 < nb
         then find_word_end e d (drop (nat nb) word_end)
         else Done word_end)"
  by pat_completeness auto
termination
proof (relation "measure (\<lambda>(e, d, s). length s)")
  fix e :: Env and d :: Dictionary and word_end :: string and x :: "int \<times> nat" and xa :: int
    and y :: nat
  assume a: "x = mbrtowc e word_end" "(xa, y) = x"
    "\<not> is_space e y \<and> \<not> is_quote d y \<and> y \<noteq> 0 \<and> 0 < xa"
  then have "word_end \<noteq> []" by (auto simp: mbrtowc_def split: if_splits)
  then show "((e, d, drop (nat xa) word_end), e, d, word_end) \<in> measure (\<lambda>(e, d, s). length s)"
    using a by simp
qed simp

declare find_word_end.simps [simp del]

text \<open>The loop \<open>for(;;)\<close> of \<open>separate_sentence\<close> at \<open>word_start\<close>. The flag of the
  result is true when the loop is left by \<open>break\<close> and false when it is left by
  \<open>goto failure\<close>. When a pass moves \<open>word_start\<close> by nothing (\<open>mbrtowc\<close> gave no bytes or
  the null character before the end of the string), every later pass does the same and
  the function never returns: \<open>None\<close>.\<close>

function sentence_loop :: "Env \<Rightarrow> Dictionary \<Rightarrow> Parse_Options \<Rightarrow> string \<Rightarrow> Sentence
    \<Rightarrow> (Sentence \<times> bool) option" where
  "sentence_loop e d opts word_start sent =
     (let (nb, c) = mbrtowc e word_start
      in if 0 > nb then Some (sent, False)
         else (case skip_loop e d word_start nb c (is_quote d c) (is_quote d c) of
                 Failure \<Rightarrow> Some (sent, False)
               | Done (word_start', quote_found) \<Rightarrow>
                   if word_start' = [] then Some (sent, True)
                   else (case find_word_end e d word_start' of
                           Failure \<Rightarrow> Some (sent, False)
                         | Done word_end \<Rightarrow>
                             do { sent1 \<leftarrow> separate_word e d opts sent word_start'
                                            (length word_start' - length word_end) quote_found;
                                  if word_end = [] then Some (sent1, True)
                                  else if length word_end < length word_start
                                  then sentence_loop e d opts word_end sent1
                                  else None })))"
  by pat_completeness auto
termination
  by (relation "measure (\<lambda>(e, d, opts, s, sent). length s)") auto

declare sentence_loop.simps [simp del]

text \<open>What \<open>separate_sentence\<close> returns: false behind the error message of \<open>failure\<close>,
  or the value of its last line.\<close>

datatype result = Failure_UTF8 | Return bool

definition separate_sentence :: "Env \<Rightarrow> Dictionary \<Rightarrow> Parse_Options \<Rightarrow> Sentence \<Rightarrow> string
    \<Rightarrow> (Sentence \<times> result) option" where
  "separate_sentence e d opts sent orig_sentence =
     do { sent1 \<leftarrow> (if left_wall_defined d
                     then issue_sentence_word e d (sent\<lparr>length_s := 0\<rparr>) (LEFT_WALL_WORD e) False
                     else Some (sent\<lparr>length_s := 0\<rparr>));
          (sent2, ok) \<leftarrow> sentence_loop e d opts orig_sentence sent1;
          if \<not> ok then Some (sent2, Failure_UTF8)
          else do { sent3 \<leftarrow> (if right_wall_defined d
                               then issue_sentence_word e d sent2 (RIGHT_WALL_WORD e) False
                               else Some sent2);
                    Some (sent3,
                          Return (length_s sent3 > (if left_wall_defined d then 1 else 0)
                                  \<or> right_wall_defined d)) } }"

definition show_res :: "(Sentence \<times> result) option \<Rightarrow> ((string list \<times> string option) list \<times> result) option" where
  "show_res r = map_option (\<lambda>(s, b). (map (\<lambda>w. (alternatives w, unsplit_word w)) (word s), b)) r"



subsection \<open>Runs of add_alternative and issue_alternatives\<close>

definition empty_sentence :: Sentence where
  "empty_sentence = \<lparr>word = [], post_quote = Map.empty, length_s = 0, t_start = 0, t_count = 0\<rparr>"

datatype token_op = Add "string list" "string list" "string list" | Issue string bool

fun run_ops :: "Env \<Rightarrow> Dictionary \<Rightarrow> token_op list \<Rightarrow> Sentence \<Rightarrow> (nat \<times> nat) list
    \<Rightarrow> (Sentence \<times> (nat \<times> nat) list) option" where
  "run_ops e d [] sent groups = Some (sent, groups)"
| "run_ops e d (Add prefix stem suffix # ops) sent groups =
     do { sent' \<leftarrow> add_alternative e d sent prefix stem suffix;
          run_ops e d ops sent' groups }"
| "run_ops e d (Issue w quote_found # ops) sent groups =
     (let (sent', issued) = issue_alternatives sent w quote_found
      in run_ops e d ops sent'
           (if issued then groups @ [(t_start sent, t_count sent)] else groups))"

definition balanced_group :: "Sentence \<Rightarrow> nat \<times> nat \<Rightarrow> bool" where
  "balanced_group sent g =
     list_all (\<lambda>j. altlen (alternatives (word sent ! (fst g + j)))
                    = altlen (alternatives (word sent ! fst g))) [0 ..< snd g]"

definition run_inv :: "Sentence \<Rightarrow> (nat \<times> nat) list \<Rightarrow> bool" where
  "run_inv sent groups \<longleftrightarrow>
     wf_sent sent \<and> length_s sent = t_start sent \<and>
     balanced_group sent (t_start sent, t_count sent) \<and>
     list_all (\<lambda>g. fst g + snd g \<le> t_start sent \<and> balanced_group sent g) groups"

subsection \<open>A concrete environment and dictionary for the examples\<close>

text \<open>ASCII character classes, an ASCII decoder, \<open>MAX_WORD = 180\<close>, a small affix table and
  a small dictionary without regular expressions.\<close>

definition ascii_downcase :: "string \<Rightarrow> string" where
  "ascii_downcase s =
     (case s of [] \<Rightarrow> []
      | c # cs \<Rightarrow>
          (case map_of (zip ''ABCDEFGHIJKLMNOPQRSTUVWXYZ'' ''abcdefghijklmnopqrstuvwxyz'') c of
             None \<Rightarrow> c | Some l \<Rightarrow> l) # cs)"

definition ascii_mb_char :: "string \<Rightarrow> int \<times> nat" where
  "ascii_mb_char s = (if (of_char (hd s) :: nat) < 128 then (1, of_char (hd s)) else (- 1, 0))"

definition test_env :: Env where
  "test_env = \<lparr>MAX_WORD = 180, EMPTY_WORD_MARK = ''=.zzz'', LEFT_WALL_WORD = ''LEFT-WALL'',
     RIGHT_WALL_WORD = ''RIGHT-WALL'', test_enabled = (\<lambda>_. False),
     downcase_utf8_str = ascii_downcase,
     iswspace = (\<lambda>c. c = 32 \<or> (9 \<le> c \<and> c \<le> 13)),
     iswdigit = (\<lambda>c. 48 \<le> c \<and> c \<le> 57),
     iswupper = (\<lambda>c. 65 \<le> c \<and> c \<le> 90),
     iswalpha = (\<lambda>c. (65 \<le> c \<and> c \<le> 90) \<or> (97 \<le> c \<and> c \<le> 122)),
     mb_char = ascii_mb_char\<rparr>"

definition test_afdict :: Afdict where
  "test_afdict = \<lparr>LPUNC = [''('', ''$''], RPUNC = ['')'', ''.'', '','', ''!''],
     UNITS = [''ft'', ''mm'', ''sq.'', ''ft.''], PRE = [], SUF = [[CHR 0x27, CHR ''v'', CHR ''e''], ''s''],
     MPRE = [], STEMSUBSCR = []\<rparr>"

definition test_dict :: Dictionary where
  "test_dict = \<lparr>affix_table = Some test_afdict, INFIX_MARK = CHR ''='',
     quotes = Some [34], bullets = Some [42],
     left_wall_defined = False, right_wall_defined = False,
     boolean_dictionary_lookup = (\<lambda>w. w \<in> set [''dog'', ''you'', ''hello'', ''.'', '','', ''12'', ''86'', ''the'']),
     find_word_in_dict = (\<lambda>w. w \<in> set [''dog'', ''you'', ''hello'', ''.'', '','', ''12'', ''86'', ''the'']),
     match_regex = (\<lambda>_. None), spell_checker = None\<rparr>"

subsection \<open>What add_alternative does to a well-formed sentence\<close>

lemma length_altappend_at [simp]: "length (altappend_at ws i w) = length ws"
  by (simp add: altappend_at_def)

lemma nth_altappend_at:
  "i < length ws \<Longrightarrow> altappend_at ws i w ! j =
     (if j = i then (ws ! i)\<lparr>alternatives := alternatives (ws ! i) @ [w]\<rparr> else ws ! j)"
  by (simp add: altappend_at_def altappend_def nth_list_update)

lemma balance_fold_length [simp]:
  "length (fold (\<lambda>len ws'. altappend_at ws' len w) is ws) = length ws"
  by (induction "is" arbitrary: ws) simp_all

lemma balance_upt:
  "b \<le> length ws \<Longrightarrow>
   fold (\<lambda>len ws'. altappend_at ws' len w) [a ..< b] ws ! j =
     (if a \<le> j \<and> j < b then (ws ! j)\<lparr>alternatives := alternatives (ws ! j) @ [w]\<rparr> else ws ! j)"
proof (induction b)
  case 0
  then show ?case by simp
next
  case (Suc b)
  then show ?case
    by (cases "a \<le> b") (auto simp: nth_altappend_at)
qed

lemma length_balance_rest [simp]: "length (balance_rest e ts ai tc ws) = length ws"
  by (simp add: balance_rest_def)

lemma nth_balance_rest:
  "ts + tc \<le> length ws \<Longrightarrow>
   balance_rest e ts ai tc ws ! j =
     (if ts + ai \<le> j \<and> j < ts + tc
      then (ws ! j)\<lparr>alternatives := alternatives (ws ! j) @ [EMPTY_WORD_MARK e]\<rparr> else ws ! j)"
  by (simp add: balance_rest_def balance_upt)

text \<open>The number of empty-word marks a new slot is filled with.\<close>

lemma add_affix_tc:
  "fst (add_affix e d ts at affix ai tc ws) = (if ai = tc then tc + 1 else tc)"
  by (simp add: add_affix_def add_word_def Let_def split: prod.splits)

lemma add_affix_length:
  "length ws = ts + tc \<Longrightarrow> ai \<le> tc \<Longrightarrow>
   length (snd (add_affix e d ts at affix ai tc ws)) = ts + (if ai = tc then tc + 1 else tc)"
  by (simp add: add_affix_def add_word_def Let_def split: prod.splits)

lemma add_affix_frame:
  "length ws = ts + tc \<Longrightarrow> ai \<le> tc \<Longrightarrow> i < ts \<Longrightarrow>
   snd (add_affix e d ts at affix ai tc ws) ! i = ws ! i"
  by (auto simp: add_affix_def add_word_def Let_def altappend_at_def nth_append nth_list_update
      split: prod.splits)

lemma add_affix_alts:
  "length ws = ts + tc \<Longrightarrow> ai \<le> tc \<Longrightarrow> j < (if ai = tc then tc + 1 else tc) \<Longrightarrow>
   alternatives (snd (add_affix e d ts at affix ai tc ws) ! (ts + j)) =
     (if j = ai
      then (if ai < tc then alternatives (ws ! (ts + ai))
            else if ai = 0 then []
            else replicate (altlen (alternatives (ws ! ts)) - 1) (EMPTY_WORD_MARK e))
           @ [format_affix e d at affix]
      else alternatives (ws ! (ts + j)))"
  by (auto simp: add_affix_def add_word_def Let_def altappend_at_def altappend_def nth_append
      nth_list_update new_word_def split: prod.splits)

lemma add_affix_unsplit:
  "length ws = ts + tc \<Longrightarrow> ai \<le> tc \<Longrightarrow> j < (if ai = tc then tc + 1 else tc) \<Longrightarrow>
   unsplit_word (snd (add_affix e d ts at affix ai tc ws) ! (ts + j)) =
     (if j < tc then unsplit_word (ws ! (ts + j)) else None)"
  by (auto simp: add_affix_def add_word_def Let_def altappend_at_def altappend_def nth_append
      nth_list_update new_word_def split: prod.splits)

lemma add_affixes_char:
  "length (word s) = t_start s + tc \<Longrightarrow> ai \<le> tc \<Longrightarrow>
   (ai = 0 \<longrightarrow> comps = [] \<or> snd (hd comps) \<noteq> []) \<Longrightarrow>
   c = (if 0 < ai then altlen (alternatives (word s ! t_start s)) - 1
        else if 0 < tc then altlen (alternatives (word s ! t_start s)) else 0) \<Longrightarrow>
   \<exists>s'. add_affixes e d comps ai tc s = Some s' \<and>
        t_start s' = t_start s \<and> length_s s' = length_s s \<and> post_quote s' = post_quote s \<and>
        t_count s' = max tc (ai + length comps) \<and>
        length (word s') = t_start s + max tc (ai + length comps) \<and>
        (\<forall>i < t_start s. word s' ! i = word s ! i) \<and>
        (\<forall>j < max tc (ai + length comps).
           unsplit_word (word s' ! (t_start s + j)) =
             (if j < tc then unsplit_word (word s ! (t_start s + j)) else None) \<and>
           alternatives (word s' ! (t_start s + j)) =
             (if j < ai then alternatives (word s ! (t_start s + j))
              else (if j < tc then alternatives (word s ! (t_start s + j))
                    else if j = 0 then [] else replicate c (EMPTY_WORD_MARK e))
                   @ [if j < ai + length comps
                      then format_affix e d (fst (comps ! (j - ai))) (snd (comps ! (j - ai)))
                      else EMPTY_WORD_MARK e]))"
proof (induction comps arbitrary: ai tc s)
  case Nil
  then show ?case
    by (auto simp: nth_balance_rest max_def)
next
  case (Cons x comps)
  obtain at affix where x: "x = (at, affix)" by (cases x)
  obtain tc1 ws1 where st: "add_affix e d (t_start s) at affix ai tc (word s) = (tc1, ws1)"
    by (cases "add_affix e d (t_start s) at affix ai tc (word s)")
  have tc1: "tc1 = (if ai = tc then tc + 1 else tc)"
    using add_affix_tc [of e d "t_start s" at affix ai tc "word s"] st by simp
  have len1: "length ws1 = t_start s + tc1"
    using add_affix_length [of "word s" "t_start s" tc ai e d at affix] st Cons.prems tc1 by simp
  have frame1: "\<And>i. i < t_start s \<Longrightarrow> ws1 ! i = word s ! i"
    using add_affix_frame [of "word s" "t_start s" tc ai _ e d at affix] st Cons.prems by simp
  have alts1: "\<And>j. j < tc1 \<Longrightarrow> alternatives (ws1 ! (t_start s + j)) =
     (if j = ai
      then (if ai < tc then alternatives (word s ! (t_start s + ai))
            else if ai = 0 then []
            else replicate (altlen (alternatives (word s ! t_start s)) - 1) (EMPTY_WORD_MARK e))
           @ [format_affix e d at affix]
      else alternatives (word s ! (t_start s + j)))"
    using add_affix_alts [of "word s" "t_start s" tc ai _ e d at affix] st Cons.prems tc1 by simp
  have uns1: "\<And>j. j < tc1 \<Longrightarrow> unsplit_word (ws1 ! (t_start s + j)) =
     (if j < tc then unsplit_word (word s ! (t_start s + j)) else None)"
    using add_affix_unsplit [of "word s" "t_start s" tc ai _ e d at affix] st Cons.prems tc1 by simp
  let ?s1 = "s\<lparr>word := ws1\<rparr>"
  have c1: "c = altlen (alternatives (word ?s1 ! t_start ?s1)) - 1"
  proof (cases "ai = 0")
    case True
    then show ?thesis using alts1 [of 0] tc1 Cons.prems(4) by (auto simp: altlen_def)
  next
    case False
    then show ?thesis using alts1 [of 0] tc1 Cons.prems(2,4) by (auto simp: altlen_def)
  qed
  have nonempty: "\<not> (ai = 0 \<and> affix = [])" using Cons.prems(3) x by auto
  have step: "add_affixes e d (x # comps) ai tc s = add_affixes e d comps (ai + 1) tc1 ?s1"
    using Cons.prems(2) nonempty st x by auto
  have "\<exists>s'. add_affixes e d comps (ai + 1) tc1 ?s1 = Some s' \<and>
        t_start s' = t_start ?s1 \<and> length_s s' = length_s ?s1 \<and> post_quote s' = post_quote ?s1 \<and>
        t_count s' = max tc1 (ai + 1 + length comps) \<and>
        length (word s') = t_start ?s1 + max tc1 (ai + 1 + length comps) \<and>
        (\<forall>i < t_start ?s1. word s' ! i = word ?s1 ! i) \<and>
        (\<forall>j < max tc1 (ai + 1 + length comps).
           unsplit_word (word s' ! (t_start ?s1 + j)) =
             (if j < tc1 then unsplit_word (word ?s1 ! (t_start ?s1 + j)) else None) \<and>
           alternatives (word s' ! (t_start ?s1 + j)) =
             (if j < ai + 1 then alternatives (word ?s1 ! (t_start ?s1 + j))
              else (if j < tc1 then alternatives (word ?s1 ! (t_start ?s1 + j))
                    else if j = 0 then [] else replicate c (EMPTY_WORD_MARK e))
                   @ [if j < ai + 1 + length comps
                      then format_affix e d (fst (comps ! (j - (ai + 1)))) (snd (comps ! (j - (ai + 1))))
                      else EMPTY_WORD_MARK e]))"
    by (rule Cons.IH) (use len1 tc1 Cons.prems(2) c1 in auto)
  then obtain s' where s': "add_affixes e d comps (ai + 1) tc1 ?s1 = Some s'"
        "t_start s' = t_start s" "length_s s' = length_s s" "post_quote s' = post_quote s"
        "t_count s' = max tc1 (ai + 1 + length comps)"
        "length (word s') = t_start s + max tc1 (ai + 1 + length comps)"
        "\<And>i. i < t_start s \<Longrightarrow> word s' ! i = ws1 ! i"
        "\<And>j. j < max tc1 (ai + 1 + length comps) \<Longrightarrow>
           unsplit_word (word s' ! (t_start s + j)) =
             (if j < tc1 then unsplit_word (ws1 ! (t_start s + j)) else None)"
        "\<And>j. j < max tc1 (ai + 1 + length comps) \<Longrightarrow>
           alternatives (word s' ! (t_start s + j)) =
             (if j < ai + 1 then alternatives (ws1 ! (t_start s + j))
              else (if j < tc1 then alternatives (ws1 ! (t_start s + j))
                    else if j = 0 then [] else replicate c (EMPTY_WORD_MARK e))
                   @ [if j < ai + 1 + length comps
                      then format_affix e d (fst (comps ! (j - (ai + 1)))) (snd (comps ! (j - (ai + 1))))
                      else EMPTY_WORD_MARK e])"
    by auto
  have mx: "max tc1 (ai + 1 + length comps) = max tc (ai + length (x # comps))"
    using tc1 Cons.prems(2) by auto
  have uns: "\<And>j. j < max tc (ai + length (x # comps)) \<Longrightarrow>
      unsplit_word (word s' ! (t_start s + j)) =
             (if j < tc then unsplit_word (word s ! (t_start s + j)) else None)"
    using s'(8) uns1 mx tc1 by (auto split: if_splits)
  have alts: "\<And>j. j < max tc (ai + length (x # comps)) \<Longrightarrow>
      alternatives (word s' ! (t_start s + j)) =
             (if j < ai then alternatives (word s ! (t_start s + j))
              else (if j < tc then alternatives (word s ! (t_start s + j))
                    else if j = 0 then [] else replicate c (EMPTY_WORD_MARK e))
                   @ [if j < ai + length (x # comps)
                      then format_affix e d (fst ((x # comps) ! (j - ai))) (snd ((x # comps) ! (j - ai)))
                      else EMPTY_WORD_MARK e])"
  proof -
    fix j assume j: "j < max tc (ai + length (x # comps))"
    then have j1: "j < max tc1 (ai + 1 + length comps)" using mx by simp
    consider "j < ai" | "j = ai" | "ai < j"  by linarith
    then show "alternatives (word s' ! (t_start s + j)) =
             (if j < ai then alternatives (word s ! (t_start s + j))
              else (if j < tc then alternatives (word s ! (t_start s + j))
                    else if j = 0 then [] else replicate c (EMPTY_WORD_MARK e))
                   @ [if j < ai + length (x # comps)
                      then format_affix e d (fst ((x # comps) ! (j - ai))) (snd ((x # comps) ! (j - ai)))
                      else EMPTY_WORD_MARK e])"
    proof cases
      case 1
      then show ?thesis using s'(9) [OF j1] alts1 [of j] tc1 Cons.prems(2) by auto
    next
      case 2
      then show ?thesis using s'(9) [OF j1] alts1 [of j] tc1 Cons.prems(2,4) x
        by (auto simp: altlen_def)
    next
      case 3
      then have "(x # comps) ! (j - ai) = comps ! (j - (ai + 1))"
      proof -
        from 3 obtain k where k: "j - ai = Suc k" by (cases "j - ai") auto
        then have "j - (ai + 1) = k" by simp
        with k show ?thesis by simp
      qed
      then show ?thesis using 3 s'(9) [OF j1] alts1 [of j] tc1 Cons.prems(2)
        by (auto)
    qed
  qed
  show ?case
    unfolding step using s'(1-6) frame1 s'(7) mx uns alts by (intro exI [of _ s']) simp
qed

lemma add_alternative_char:
  assumes "wf_sent s" and "prefix @ stem @ suffix = [] \<or> hd (prefix @ stem @ suffix) \<noteq> []"
  shows "\<exists>s'. add_alternative e d s prefix stem suffix = Some s' \<and>
        t_start s' = t_start s \<and> length_s s' = length_s s \<and> post_quote s' = post_quote s \<and>
        t_count s' = max (t_count s) (length (components prefix stem suffix)) \<and>
        wf_sent s' \<and>
        (\<forall>i < t_start s. word s' ! i = word s ! i) \<and>
        (\<forall>j < max (t_count s) (length (components prefix stem suffix)).
           unsplit_word (word s' ! (t_start s + j)) =
             (if j < t_count s then unsplit_word (word s ! (t_start s + j)) else None) \<and>
           alternatives (word s' ! (t_start s + j)) =
             (if j < t_count s then alternatives (word s ! (t_start s + j))
              else replicate (numalt_first s) (EMPTY_WORD_MARK e))
             @ [if j < length (components prefix stem suffix)
                then format_affix e d (fst (components prefix stem suffix ! j))
                       (snd (components prefix stem suffix ! j))
                else EMPTY_WORD_MARK e])"
proof -
  let ?comps = "components prefix stem suffix"
  have ne: "(0::nat) = 0 \<longrightarrow> ?comps = [] \<or> snd (hd ?comps) \<noteq> []"
    using assms(2) by (cases prefix; cases stem; cases suffix) (auto simp: components_def)
  have len: "length (word s) = t_start s + t_count s" using assms(1) by (simp add: wf_sent_def)
  have c: "numalt_first s = (if (0::nat) < 0 then altlen (alternatives (word s ! t_start s)) - 1
        else if 0 < t_count s then altlen (alternatives (word s ! t_start s)) else 0)"
    by (simp add: numalt_first_def)
  from add_affixes_char [OF len _ ne c, of e d]
  obtain s' where s': "add_affixes e d ?comps 0 (t_count s) s = Some s'"
        "t_start s' = t_start s" "length_s s' = length_s s" "post_quote s' = post_quote s"
        "t_count s' = max (t_count s) (length ?comps)"
        "length (word s') = t_start s + max (t_count s) (length ?comps)"
        "\<forall>i < t_start s. word s' ! i = word s ! i"
        "\<forall>j < max (t_count s) (0 + length ?comps).
           unsplit_word (word s' ! (t_start s + j)) =
             (if j < t_count s then unsplit_word (word s ! (t_start s + j)) else None) \<and>
           alternatives (word s' ! (t_start s + j)) =
             (if j < 0 then alternatives (word s ! (t_start s + j))
              else (if j < t_count s then alternatives (word s ! (t_start s + j))
                    else if j = 0 then [] else replicate (numalt_first s) (EMPTY_WORD_MARK e))
                   @ [if j < 0 + length ?comps
                      then format_affix e d (fst (?comps ! (j - 0))) (snd (?comps ! (j - 0)))
                      else EMPTY_WORD_MARK e])"
    by auto
  have z: "\<And>j. \<not> j < t_count s \<Longrightarrow> j = 0 \<Longrightarrow> numalt_first s = 0"
    by (simp add: numalt_first_def)
  show ?thesis
    apply (rule exI [of _ s'])
    using s' z by (auto simp: add_alternative_def components_def [symmetric] wf_sent_def)
qed

lemma add_alternative_empty_first:
  "prefix @ stem @ suffix \<noteq> [] \<Longrightarrow> hd (prefix @ stem @ suffix) = [] \<Longrightarrow>
   add_alternative e d s prefix stem suffix = Some s"
  by (cases prefix; cases stem; cases suffix) (auto simp: add_alternative_def)

lemma add_alternative_Some:
  assumes "wf_sent s"
  shows "\<exists>s'. add_alternative e d s prefix stem suffix = Some s' \<and> wf_sent s' \<and>
     t_start s' = t_start s \<and> length_s s' = length_s s \<and> post_quote s' = post_quote s \<and>
     t_count s \<le> t_count s' \<and> (\<forall>i < t_start s. word s' ! i = word s ! i)"
proof (cases "prefix @ stem @ suffix = [] \<or> hd (prefix @ stem @ suffix) \<noteq> []")
  case True
  from add_alternative_char [OF assms True, of e d] obtain s' where
    "add_alternative e d s prefix stem suffix = Some s'" "wf_sent s'"
    "t_start s' = t_start s" "length_s s' = length_s s" "post_quote s' = post_quote s"
    "t_count s' = max (t_count s) (length (components prefix stem suffix))"
    "\<forall>i < t_start s. word s' ! i = word s ! i"
    by blast
  then show ?thesis by (intro exI [of _ s']) simp
next
  case False
  then show ?thesis using add_alternative_empty_first [of prefix stem suffix e d s] assms by auto
qed

subsection \<open>Sentences built by add_alternative and issue_alternatives\<close>

lemma balanced_group_iff:
  "balanced_group sent (st, cnt) \<longleftrightarrow>
     (\<forall>j < cnt. altlen (alternatives (word sent ! (st + j))) = altlen (alternatives (word sent ! st)))"
  by (auto simp: balanced_group_def list_all_iff)

lemma issue_alternatives_alts:
  "alternatives (word (fst (issue_alternatives s w q)) ! i) = alternatives (word s ! i)"
  by (cases "t_start s < length (word s)")
     (auto simp: issue_alternatives_def Let_def nth_list_update list_update_beyond)

lemma balanced_group_frame:
  "st + cnt \<le> ts \<Longrightarrow> \<forall>i < ts. word s' ! i = word s ! i \<Longrightarrow>
   balanced_group s' (st, cnt) = balanced_group s (st, cnt)"
  by (cases cnt) (auto simp: balanced_group_iff)

lemma add_alternative_staged_balanced:
  assumes "wf_sent s" "balanced_group s (t_start s, t_count s)"
    "add_alternative e d s prefix stem suffix = Some s'"
  shows "balanced_group s' (t_start s', t_count s')"
proof (cases "prefix @ stem @ suffix = [] \<or> hd (prefix @ stem @ suffix) \<noteq> []")
  case True
  let ?n = "length (components prefix stem suffix)"
  from add_alternative_char [OF assms(1) True, of e d] assms(3)
  have s': "t_start s' = t_start s" "t_count s' = max (t_count s) ?n"
    and alts: "\<And>j. j < max (t_count s) ?n \<Longrightarrow>
           alternatives (word s' ! (t_start s + j)) =
             (if j < t_count s then alternatives (word s ! (t_start s + j))
              else replicate (numalt_first s) (EMPTY_WORD_MARK e))
             @ [if j < ?n
                then format_affix e d (fst (components prefix stem suffix ! j))
                       (snd (components prefix stem suffix ! j))
                else EMPTY_WORD_MARK e]"
    by auto
  have old: "\<And>j. j < t_count s \<Longrightarrow>
      altlen (alternatives (word s ! (t_start s + j))) = numalt_first s"
    using assms(2) by (auto simp: balanced_group_iff numalt_first_def)
  have "\<And>j. j < max (t_count s) ?n \<Longrightarrow>
      altlen (alternatives (word s' ! (t_start s + j))) = numalt_first s + 1"
    using alts old by (auto simp: altlen_def)
  then show ?thesis
    unfolding balanced_group_iff s'
    by (metis add.right_neutral less_nat_zero_code not_gr_zero)
next
  case False
  then show ?thesis using add_alternative_empty_first [of prefix stem suffix e d s] assms by auto
qed

lemma run_inv_add:
  assumes "run_inv s gs"
  shows "\<exists>s'. add_alternative e d s prefix stem suffix = Some s' \<and> run_inv s' gs"
proof -
  from assms have wf: "wf_sent s" by (simp add: run_inv_def)
  from add_alternative_Some [OF wf, of e d prefix stem suffix] obtain s' where
    s': "add_alternative e d s prefix stem suffix = Some s'" "wf_sent s'"
    "t_start s' = t_start s" "length_s s' = length_s s"
    "\<forall>i < t_start s. word s' ! i = word s ! i"
    by blast
  have "balanced_group s' (t_start s', t_count s')"
    using add_alternative_staged_balanced [OF wf _ s'(1)] assms by (simp add: run_inv_def)
  moreover have "list_all (\<lambda>g. fst g + snd g \<le> t_start s' \<and> balanced_group s' g) gs"
    using assms s'(3,5) balanced_group_frame [of _ _ "t_start s" s' s]
    by (auto simp: run_inv_def list_all_iff)
  ultimately show ?thesis using s' assms by (auto simp: run_inv_def)
qed

lemma run_inv_issue:
  assumes "run_inv s gs"
  shows "run_inv (fst (issue_alternatives s w q))
           (if snd (issue_alternatives s w q) then gs @ [(t_start s, t_count s)] else gs)"
proof (cases "t_count s = 0")
  case True
  then show ?thesis using assms by (simp add: issue_alternatives_def)
next
  case False
  let ?s' = "fst (issue_alternatives s w q)"
  have f: "snd (issue_alternatives s w q)" "t_start ?s' = t_start s + t_count s"
    "t_count ?s' = 0" "length_s ?s' = t_start ?s'" "length (word ?s') = length (word s)"
    using False assms by (auto simp: issue_alternatives_def Let_def run_inv_def)
  have b: "\<And>g. balanced_group ?s' g = balanced_group s g"
    by (simp add: balanced_group_def issue_alternatives_alts)
  show ?thesis
    using assms f b by (auto simp: run_inv_def wf_sent_def list_all_iff balanced_group_def)
qed

lemma run_ops_inv:
  "run_inv s gs \<Longrightarrow> \<exists>s' gs'. run_ops e d ops s gs = Some (s', gs') \<and> run_inv s' gs'"
proof (induction ops arbitrary: s gs)
  case Nil
  then show ?case by simp
next
  case (Cons op ops)
  show ?case
  proof (cases op)
    case (Add prefix stem suffix)
    from run_inv_add [OF Cons.prems, of e d prefix stem suffix] obtain s1 where
      "add_alternative e d s prefix stem suffix = Some s1" "run_inv s1 gs" by blast
    then show ?thesis using Cons.IH [of s1 gs] Add by simp
  next
    case (Issue w q)
    from run_inv_issue [OF Cons.prems, of w q]
    show ?thesis using Issue Cons.IH by (simp add: case_prod_unfold Let_def)
  qed
qed

lemma run_inv_empty: "run_inv empty_sentence []"
  by (simp add: run_inv_def empty_sentence_def wf_sent_def balanced_group_def)

subsection \<open>Properties of issue_alternatives\<close>

text \<open>A staged group of one word, used to try the commit on.\<close>

definition staged_dog :: Sentence where
  "staged_dog = \<lparr>word = [\<lparr>alternatives = [''dog''], unsplit_word = None, firstupper = False\<rparr>],
     post_quote = Map.empty, length_s = 0, t_start = 0, t_count = 1\<rparr>"

text \<open>
  Claim C2. Commit semantics of \<open>issue_alternatives\<close>: on an empty staged group
  (\<open>t_count = 0\<close>) it returns false and the sentence is unchanged. Otherwise it returns
  true, the raw word is the \<open>unsplit_word\<close> of the group's first slot, \<open>quote_found\<close> is
  that slot's \<open>post_quote\<close>, \<open>length\<close> has grown by \<open>t_count\<close>, \<open>t_start\<close> is the new
  length and \<open>t_count\<close> is 0; the alternatives of every slot, every other slot and every
  other \<open>post_quote\<close> entry are as before.
\<close>

theorem issue_alternatives_commit:
  "(t_count sent = 0 \<longrightarrow> issue_alternatives sent w q = (sent, False)) \<and>
   (t_count sent \<noteq> 0 \<and> wf_sent sent \<longrightarrow>
      (let sent' = fst (issue_alternatives sent w q)
       in snd (issue_alternatives sent w q) = True \<and>
          unsplit_word (word sent' ! t_start sent) = Some w \<and>
          post_quote sent' (t_start sent) = Some q \<and>
          length_s sent' = length_s sent + t_count sent \<and>
          t_start sent' = length_s sent' \<and>
          t_count sent' = 0 \<and>
          length (word sent') = length (word sent) \<and>
          map alternatives (word sent') = map alternatives (word sent) \<and>
          (\<forall>i. i \<noteq> t_start sent \<longrightarrow> word sent' ! i = word sent ! i \<and>
                post_quote sent' i = post_quote sent i)))"
  by (auto simp: issue_alternatives_def wf_sent_def Let_def map_update list_eq_iff_nth_eq
      nth_list_update)

theorem issue_alternatives_commit_witness:
  "t_count staged_dog \<noteq> 0 \<and> wf_sent staged_dog \<and>
   issue_alternatives staged_dog ''dog'' True =
     (\<lparr>word = [\<lparr>alternatives = [''dog''], unsplit_word = Some ''dog'', firstupper = False\<rparr>],
       post_quote = [0 \<mapsto> True], length_s = 1, t_start = 1, t_count = 0\<rparr>, True) \<and>
   issue_alternatives (fst (issue_alternatives staged_dog ''dog'' True)) ''cat'' False =
     (fst (issue_alternatives staged_dog ''dog'' True), False)"
  using issue_alternatives_commit [of staged_dog "''dog''" True]
    issue_alternatives_commit [of "fst (issue_alternatives staged_dog ''dog'' True)" "''cat''" False]
  by (simp add: staged_dog_def issue_alternatives_def wf_sent_def)

subsection \<open>Balancing and the format of suffixes\<close>

text \<open>A run of seven calls, and a staged group of two slots with two decompositions.\<close>

definition ops1 :: "token_op list" where
  "ops1 =
     [Add [] [''dogs''] [], Add [] [''dog''] [''s''], Issue ''dogs'' False,
      Add [''un''] [''do''] [''ing''], Add [] [''undoing''] [], Issue ''undoing'' True,
      Issue ''x'' True]"

definition staged_undoing :: Sentence where
  "staged_undoing =
     \<lparr>word = [\<lparr>alternatives = [''undoing'', ''un=''], unsplit_word = None, firstupper = False\<rparr>,
              \<lparr>alternatives = [''=.zzz'', ''doing''], unsplit_word = None, firstupper = False\<rparr>],
      post_quote = Map.empty, length_s = 0, t_start = 0, t_count = 2\<rparr>"

text \<open>
  Claim C1. Balancing invariant. Every sequence of calls of \<open>add_alternative\<close> and
  \<open>issue_alternatives\<close> on the empty sentence runs to its end, and in the sentence it
  builds every group that a call of \<open>issue_alternatives\<close> committed has the same number of
  alternatives in all its slots. One call of \<open>add_alternative\<close> on a well-formed sentence
  (with a first component that is not the empty string) adds the empty-word mark to every
  slot of the group behind the decomposition's last component, and fills every slot it
  creates with as many empty-word marks as the group's first slot held alternatives before
  the call, followed by the component itself.
\<close>

theorem balancing_invariant:
  "(\<exists>sent groups. run_ops e d ops empty_sentence [] = Some (sent, groups) \<and>
        list_all (balanced_group sent) groups) \<and>
   (wf_sent sent0 \<and> (prefix @ stem @ suffix = [] \<or> hd (prefix @ stem @ suffix) \<noteq> []) \<longrightarrow>
      (\<exists>sent'. add_alternative e d sent0 prefix stem suffix = Some sent' \<and>
         (\<forall>j. length (components prefix stem suffix) \<le> j \<and> j < t_count sent0 \<longrightarrow>
              alternatives (word sent' ! (t_start sent0 + j)) =
                alternatives (word sent0 ! (t_start sent0 + j)) @ [EMPTY_WORD_MARK e]) \<and>
         (\<forall>j. t_count sent0 \<le> j \<and> j < length (components prefix stem suffix) \<longrightarrow>
              alternatives (word sent' ! (t_start sent0 + j)) =
                replicate (numalt_first sent0) (EMPTY_WORD_MARK e)
                @ [format_affix e d (fst (components prefix stem suffix ! j))
                     (snd (components prefix stem suffix ! j))])))"
proof (intro conjI impI)
  from run_ops_inv [OF run_inv_empty, of e d ops]
  obtain sent groups where "run_ops e d ops empty_sentence [] = Some (sent, groups)"
    "run_inv sent groups" by blast
  then show "\<exists>sent groups. run_ops e d ops empty_sentence [] = Some (sent, groups) \<and>
        list_all (balanced_group sent) groups"
    by (auto simp: run_inv_def list_all_iff)
next
  assume a: "wf_sent sent0 \<and> (prefix @ stem @ suffix = [] \<or> hd (prefix @ stem @ suffix) \<noteq> [])"
  let ?n = "length (components prefix stem suffix)"
  from a add_alternative_char [of sent0 prefix stem suffix e d]
  obtain sent' where s': "add_alternative e d sent0 prefix stem suffix = Some sent'"
    and alts: "\<And>j. j < max (t_count sent0) ?n \<Longrightarrow>
           alternatives (word sent' ! (t_start sent0 + j)) =
             (if j < t_count sent0 then alternatives (word sent0 ! (t_start sent0 + j))
              else replicate (numalt_first sent0) (EMPTY_WORD_MARK e))
             @ [if j < ?n
                then format_affix e d (fst (components prefix stem suffix ! j))
                       (snd (components prefix stem suffix ! j))
                else EMPTY_WORD_MARK e]"
    by blast
  show "\<exists>sent'. add_alternative e d sent0 prefix stem suffix = Some sent' \<and>
         (\<forall>j. ?n \<le> j \<and> j < t_count sent0 \<longrightarrow>
              alternatives (word sent' ! (t_start sent0 + j)) =
                alternatives (word sent0 ! (t_start sent0 + j)) @ [EMPTY_WORD_MARK e]) \<and>
         (\<forall>j. t_count sent0 \<le> j \<and> j < ?n \<longrightarrow>
              alternatives (word sent' ! (t_start sent0 + j)) =
                replicate (numalt_first sent0) (EMPTY_WORD_MARK e)
                @ [format_affix e d (fst (components prefix stem suffix ! j))
                     (snd (components prefix stem suffix ! j))])"
    using s' alts by (intro exI [of _ sent']) auto
qed

theorem balancing_invariant_witness:
  "map_option (\<lambda>(s, g). (map alternatives (word s), g))
       (run_ops test_env test_dict ops1 empty_sentence [])
     = Some ([[''dogs'', ''dog''], [''=.zzz'', ''=s''],
              [''un='', ''undoing''], [''do'', ''=.zzz''], [''=ing'', ''=.zzz'']],
             [(0, 2), (2, 3)]) \<and>
   wf_sent staged_undoing \<and>
   map_option (\<lambda>s. map alternatives (word s))
       (add_alternative test_env test_dict staged_undoing [] [''Undoing''] [])
     = Some [[''undoing'', ''un='', ''Undoing''], [''=.zzz'', ''doing'', ''=.zzz'']] \<and>
   map_option (\<lambda>s. map alternatives (word s))
       (add_alternative test_env test_dict staged_undoing [''un''] [''do''] [''ing''])
     = Some [[''undoing'', ''un='', ''un=''], [''=.zzz'', ''doing'', ''do''],
             [''=.zzz'', ''=.zzz'', ''=ing'']]"
proof -
  have h: "wf_sent staged_undoing \<and>
      ([''un''] @ [''do''] @ [''ing''] = [] \<or> hd ([''un''] @ [''do''] @ [''ing'']) \<noteq> [])"
    by code_simp
  have c: "\<exists>sent'. add_alternative test_env test_dict staged_undoing [''un''] [''do''] [''ing'']
      = Some sent'"
    using balancing_invariant [of test_env test_dict ops1 staged_undoing
        "[''un'']" "[''do'']" "[''ing'']"] h
    by blast
  have ev: ?thesis by code_simp
  show ?thesis by (insert c, rule ev)
qed

text \<open>
  Claim C5, as amended. Format of a suffix component in \<open>add_alternative\<close>: the
  alternative appended for the \<open>j\<close>-th suffix is the infix mark followed by the suffix
  text, or the suffix text alone when the suffix starts with a non-alphabetic character,
  when the infix mark is NUL or when the toggle "no-suffixes" is on, in either case cut to
  \<open>MAX_WORD\<close> bytes; for a suffix of fewer than \<open>MAX_WORD\<close> bytes nothing is cut.
\<close>

theorem suffix_component_format:
  assumes "wf_sent sent" and "hd (prefix @ stem @ suffix) \<noteq> []" and "j < length suffix"
  shows "\<exists>sent'. add_alternative e d sent prefix stem suffix = Some sent' \<and>
     last (alternatives (word sent' ! (t_start sent + (length prefix + length stem + j))))
       = format_affix e d SUFFIX (suffix ! j) \<and>
     format_affix e d SUFFIX (suffix ! j)
       = take (MAX_WORD e)
           (if (suffix ! j \<noteq> [] \<and> \<not> is_utf8_alpha e (suffix ! j)) \<or> INFIX_MARK d = NUL
                 \<or> test_enabled e ''no-suffixes''
            then suffix ! j else INFIX_MARK d # suffix ! j) \<and>
     (length (suffix ! j) < MAX_WORD e \<longrightarrow>
        format_affix e d SUFFIX (suffix ! j)
          = (if (suffix ! j \<noteq> [] \<and> \<not> is_utf8_alpha e (suffix ! j)) \<or> INFIX_MARK d = NUL
                 \<or> test_enabled e ''no-suffixes''
             then suffix ! j else INFIX_MARK d # suffix ! j))"
proof -
  let ?comps = "components prefix stem suffix"
  let ?k = "length prefix + length stem + j"
  have k: "?k < length ?comps" using assms(3) by (simp add: components_def)
  have ck: "?comps ! ?k = (SUFFIX, suffix ! j)"
    using assms(3) by (simp add: components_def nth_append)
  from add_alternative_char [of sent prefix stem suffix e d] assms(1,2)
  obtain sent' where s': "add_alternative e d sent prefix stem suffix = Some sent'"
    and alts: "\<And>i. i < max (t_count sent) (length ?comps) \<Longrightarrow>
           alternatives (word sent' ! (t_start sent + i)) =
             (if i < t_count sent then alternatives (word sent ! (t_start sent + i))
              else replicate (numalt_first sent) (EMPTY_WORD_MARK e))
             @ [if i < length ?comps
                then format_affix e d (fst (?comps ! i)) (snd (?comps ! i))
                else EMPTY_WORD_MARK e]"
    by blast
  have 1: "last (alternatives (word sent' ! (t_start sent + ?k)))
      = format_affix e d SUFFIX (suffix ! j)"
    using alts [of ?k] k ck by simp
  have 2: "format_affix e d SUFFIX (suffix ! j)
       = take (MAX_WORD e)
           (if (suffix ! j \<noteq> [] \<and> \<not> is_utf8_alpha e (suffix ! j)) \<or> INFIX_MARK d = NUL
                 \<or> test_enabled e ''no-suffixes''
            then suffix ! j else INFIX_MARK d # suffix ! j)"
    by (cases "MAX_WORD e") (auto simp: format_affix_def Let_def min_def take_Cons')
  show ?thesis
    using s' 1 2 by (intro exI [of _ sent']) auto
qed

text \<open>A suffix of 180 letters, as long as \<open>MAX_WORD\<close> of the example environment: it is
  alphabetic, the mark is defined, the toggle is off, and the alternative emitted for it is
  the mark and 179 letters, not the mark and the suffix.\<close>

definition long_suffix :: string where
  "long_suffix = replicate 180 (CHR ''a'')"

theorem suffix_component_format_counterexample:
  "long_suffix \<noteq> [] \<and> is_utf8_alpha test_env long_suffix \<and> INFIX_MARK test_dict \<noteq> NUL \<and>
   \<not> test_enabled test_env ''no-suffixes'' \<and>
   map_option (\<lambda>s. last (alternatives (word s ! 1)))
       (add_alternative test_env test_dict empty_sentence [] [''x''] [long_suffix])
     = Some (INFIX_MARK test_dict # replicate 179 (CHR ''a'')) \<and>
   INFIX_MARK test_dict # replicate 179 (CHR ''a'') \<noteq> INFIX_MARK test_dict # long_suffix"
  by code_simp

theorem suffix_component_format_witness:
  "wf_sent empty_sentence \<and>
   map_option (\<lambda>s. map alternatives (word s))
     (add_alternative test_env test_dict empty_sentence [] [''dog''] [''s''])
     = Some [[''dog''], [''=s'']] \<and>
   map_option (\<lambda>s. map alternatives (word s))
     (add_alternative test_env test_dict empty_sentence [] [''you'']
        [[CHR 0x27, CHR ''v'', CHR ''e'']])
     = Some [[''you''], [[CHR 0x27, CHR ''v'', CHR ''e'']]] \<and>
   map_option (\<lambda>s. map alternatives (word s))
     (add_alternative test_env (test_dict\<lparr>INFIX_MARK := NUL\<rparr>) empty_sentence [] [''dog''] [''s''])
     = Some [[''dog''], [''s'']]"
proof -
  have h: "wf_sent empty_sentence" "hd ([] @ [''dog''] @ [''s'']) \<noteq> []"
    "0 < length [''s'']"
    by (simp_all add: wf_sent_def empty_sentence_def)
  have c: "\<exists>sent'. add_alternative test_env test_dict empty_sentence [] [''dog''] [''s'']
      = Some sent'"
    using suffix_component_format [OF h, of test_env test_dict] by blast
  have ev: ?thesis by code_simp
  show ?thesis by (insert c, rule ev)
qed

subsection \<open>Properties of strip_right\<close>

lemma strip_scan_Some:
  "strip_scan swn piu w n es = Some (u, t) \<Longrightarrow>
     (u, t) \<in> set es \<and> (u \<longrightarrow> swn \<and> \<not> piu) \<and> length t \<le> n \<and>
     take (length t) (drop (n - length t) w) = t"
  by (induction es) (auto split: if_splits)

lemma strip_step_Inr:
  "strip_step e d afdict swn w st = Inr st' \<Longrightarrow>
     (previous_is_unit st', last (r_stripped st')) \<in> set (strip_entries afdict) \<and>
     (previous_is_unit st' \<longrightarrow> swn \<and> \<not> previous_is_unit st) \<and>
     r_stripped st' = r_stripped st @ [last (r_stripped st')] \<and>
     length (last (r_stripped st')) \<le> temp_wend st \<and>
     temp_wend st' = temp_wend st - length (last (r_stripped st')) \<and>
     take (length (last (r_stripped st'))) (drop (temp_wend st') w) = last (r_stripped st') \<and>
     nrs st' = nrs st \<and> word_is_in_dict st' = word_is_in_dict st"
  by (auto simp: strip_step_def split: if_splits option.splits dest!: strip_scan_Some)

lemma strip_trace_entries:
  "set (strip_trace e d afdict swn w k st) \<subseteq> set (strip_entries afdict)"
proof (induction k arbitrary: st)
  case 0
  then show ?case by simp
next
  case (Suc k)
  show ?case
  proof (cases "strip_step e d afdict swn w st")
    case (Inl a)
    then show ?thesis by simp
  next
    case (Inr st')
    then show ?thesis
      using Suc.IH [of "st'\<lparr>nrs := nrs st + 1\<rparr>"] strip_step_Inr [OF Inr] by simp
  qed
qed

lemma strip_trace_units_need_number:
  "(True, t) \<in> set (strip_trace e d afdict swn w k st) \<Longrightarrow> swn"
proof (induction k arbitrary: st)
  case 0
  then show ?case by simp
next
  case (Suc k)
  show ?case
  proof (cases "strip_step e d afdict swn w st")
    case (Inl a)
    then show ?thesis using Suc.prems by simp
  next
    case (Inr st')
    then show ?thesis
      using Suc.IH [of "st'\<lparr>nrs := nrs st + 1\<rparr>"] strip_step_Inr [OF Inr] Suc.prems by auto
  qed
qed

lemma strip_trace_hd:
  "strip_trace e d afdict swn w k st = (True, t) # tr \<Longrightarrow> \<not> previous_is_unit st"
proof (cases k)
  case 0
  assume "strip_trace e d afdict swn w k st = (True, t) # tr"
  then show ?thesis using 0 by simp
next
  case (Suc k')
  assume a: "strip_trace e d afdict swn w k st = (True, t) # tr"
  show ?thesis
  proof (cases "strip_step e d afdict swn w st")
    case (Inl a')
    then show ?thesis using a Suc by simp
  next
    case (Inr st')
    then show ?thesis using a Suc strip_step_Inr [OF Inr] by auto
  qed
qed

lemma strip_trace_no_adjacent:
  "no_adjacent_units (strip_trace e d afdict swn w k st)"
proof (induction k arbitrary: st)
  case 0
  then show ?case by simp
next
  case (Suc k)
  show ?case
  proof (cases "strip_step e d afdict swn w st")
    case (Inl a)
    then show ?thesis by simp
  next
    case (Inr st')
    let ?st = "st'\<lparr>nrs := nrs st + 1\<rparr>"
    show ?thesis
    proof (cases "strip_trace e d afdict swn w k ?st")
      case Nil
      then show ?thesis using Inr by simp
    next
      case (Cons y ys)
      obtain u2 t2 where y: "y = (u2, t2)" by (cases y)
      have "\<not> (previous_is_unit st' \<and> u2)"
        using strip_trace_hd [of e d afdict swn w k ?st t2 ys] Cons y by auto
      then show ?thesis
        using Inr Suc.IH [of ?st] Cons y by simp
    qed
  qed
qed

lemma strip_trace_r_stripped:
  "r_stripped (strip_right_loop e d afdict swn w k st)
     = r_stripped st @ map snd (strip_trace e d afdict swn w k st)"
proof (induction k arbitrary: st)
  case 0
  then show ?case by simp
next
  case (Suc k)
  show ?case
  proof (cases "strip_step e d afdict swn w st")
    case (Inl a)
    then have "r_stripped a = r_stripped st"
      by (auto simp: strip_step_def split: if_splits option.splits)
    then show ?thesis using Inl by simp
  next
    case (Inr st')
    then show ?thesis
      using Suc.IH [of "st'\<lparr>nrs := nrs st + 1\<rparr>"] strip_step_Inr [OF Inr] by simp
  qed
qed

lemma strip_step_Inl:
  "strip_step e d afdict swn w st = Inl st' \<Longrightarrow>
     r_stripped st' = r_stripped st \<and> temp_wend st' = temp_wend st \<and> nrs st' = nrs st \<and>
     previous_is_unit st' = previous_is_unit st \<and> wend st' = wend st \<and>
     n_r_stripped st' = n_r_stripped st"
  by (auto simp: strip_step_def split: if_splits option.splits)

lemma strip_loop_nrs:
  "nrs (strip_right_loop e d afdict swn w k st)
     = nrs st + length (strip_trace e d afdict swn w k st)"
proof (induction k arbitrary: st)
  case 0
  then show ?case by simp
next
  case (Suc k)
  show ?case
  proof (cases "strip_step e d afdict swn w st")
    case (Inl a)
    then show ?thesis using strip_step_Inl [OF Inl] by simp
  next
    case (Inr st')
    then show ?thesis
      using Suc.IH [of "st'\<lparr>nrs := nrs st + 1\<rparr>"] by simp
  qed
qed

lemma strip_loop_piu:
  "previous_is_unit (strip_right_loop e d afdict swn w k st) \<Longrightarrow> swn \<or> previous_is_unit st"
proof (induction k arbitrary: st)
  case 0
  then show ?case by simp
next
  case (Suc k)
  show ?case
  proof (cases "strip_step e d afdict swn w st")
    case (Inl a)
    then show ?thesis using strip_step_Inl [OF Inl] Suc.prems by simp
  next
    case (Inr st')
    then show ?thesis
      using Suc.IH [of "st'\<lparr>nrs := nrs st + 1\<rparr>"] strip_step_Inr [OF Inr] Suc.prems by auto
  qed
qed


lemma strip_right_char:
  assumes "affix_table d = Some afdict"
  shows "strip_right e d w n in_dict =
     (let st = strip_right_loop e d afdict (is_utf8_digit e w) w MAX_STRIP (strip_init n in_dict)
      in (temp_wend st, r_stripped st, nrs st, word_is_in_dict st))"
proof -
  let ?st = "strip_right_loop e d afdict (is_utf8_digit e w) w MAX_STRIP (strip_init n in_dict)"
  have "\<not> previous_is_unit ?st \<or> is_utf8_digit e w"
    using strip_loop_piu [of e d afdict "is_utf8_digit e w" w MAX_STRIP "strip_init n in_dict"]
    by (auto simp: strip_init_def)
  then have c: "(if \<not> previous_is_unit ?st \<or> is_utf8_digit e w
                  then ?st\<lparr>n_r_stripped := nrs ?st, wend := temp_wend ?st\<rparr> else ?st)
             = ?st\<lparr>n_r_stripped := nrs ?st, wend := temp_wend ?st\<rparr>"
    by (cases "is_utf8_digit e w") (simp_all del: strip_right_loop.simps)
  show ?thesis
    unfolding strip_right_def Let_def assms option.case strip_init_def [symmetric] c
    by simp
qed

text \<open>
  Claim C4, as amended. Unit-strip gating in \<open>strip_right\<close>. The strings \<open>strip_right\<close>
  returns in \<open>r_stripped\<close> are the entries its passes strip, \<open>n_r_stripped\<close> of them, each
  an RPUNC or a UNITS entry. An entry is stripped as a unit only if the word that
  \<open>strip_right\<close> is called with starts with a digit: in \<open>separate_word\<close> this is the token
  behind the left punctuation that \<open>strip_left\<close> has taken off, not the raw token. No two
  entries stripped one after the other are both units, so that a unit is the first entry
  stripped or follows a punctuation strip; and for a word that does not start with a
  digit, such as "Delft", every entry stripped is an RPUNC entry.
\<close>

theorem unit_strip_gating:
  assumes "affix_table d = Some afdict"
  shows "(let tr = strip_trace e d afdict (is_utf8_digit e w) w MAX_STRIP (strip_init n in_dict);
              (wend', rs, nrs', in_dict') = strip_right e d w n in_dict
          in rs = map snd tr \<and> nrs' = length rs \<and>
             set tr \<subseteq> set (strip_entries afdict) \<and>
             ((\<exists>t. (True, t) \<in> set tr) \<longrightarrow> is_utf8_digit e w) \<and>
             no_adjacent_units tr \<and>
             (\<not> is_utf8_digit e w \<longrightarrow> set rs \<subseteq> set (RPUNC afdict)))"
proof -
  let ?swn = "is_utf8_digit e w"
  let ?tr = "strip_trace e d afdict ?swn w MAX_STRIP (strip_init n in_dict)"
  let ?st = "strip_right_loop e d afdict ?swn w MAX_STRIP (strip_init n in_dict)"
  have rs: "r_stripped ?st = map snd ?tr"
    using strip_trace_r_stripped [of e d afdict ?swn w MAX_STRIP "strip_init n in_dict"]
    by (simp add: strip_init_def)
  have n: "nrs ?st = length ?tr"
    using strip_loop_nrs [of e d afdict ?swn w MAX_STRIP "strip_init n in_dict"]
    by (simp add: strip_init_def)
  have ent: "set ?tr \<subseteq> set (strip_entries afdict)" by (rule strip_trace_entries)
  have num: "(\<exists>t. (True, t) \<in> set ?tr) \<longrightarrow> ?swn"
    using strip_trace_units_need_number by blast
  have "\<not> ?swn \<longrightarrow> set (map snd ?tr) \<subseteq> set (RPUNC afdict)"
  proof (intro impI subsetI)
    fix t assume a: "\<not> ?swn" "t \<in> set (map snd ?tr)"
    then obtain u where ut: "(u, t) \<in> set ?tr" by auto
    then have "\<not> u" using num a(1) by (cases u) auto
    then show "t \<in> set (RPUNC afdict)" using ut ent by (auto simp: strip_entries_def)
  qed
  then show ?thesis
    using rs n ent num strip_trace_no_adjacent [of e d afdict ?swn w MAX_STRIP "strip_init n in_dict"]
    by (simp add: strip_right_char [OF assms] Let_def)
qed

text \<open>A word without a digit at its start, a unit behind a unit ("12mmft": "ft" is
  stripped and "mm" is not, although "mm" is stripped from "12mm"), and a unit behind a
  punctuation mark behind a unit ("12mm.ft").\<close>

theorem unit_strip_gating_witness:
  "affix_table test_dict = Some test_afdict \<and>
   \<not> is_utf8_digit test_env ''Delft.'' \<and>
   strip_trace test_env test_dict test_afdict (is_utf8_digit test_env ''Delft.'') ''Delft.''
       MAX_STRIP (strip_init 6 False) = [(False, ''.'')] \<and>
   strip_right test_env test_dict ''Delft.'' 6 False = (5, [''.''], 1, False) \<and>
   set (fst (snd (strip_right test_env test_dict ''Delft.'' 6 False))) \<subseteq> set (RPUNC test_afdict) \<and>
   strip_right test_env test_dict ''Delft'' 5 False = (5, [], 0, False) \<and>
   is_utf8_digit test_env ''12mmft'' \<and>
   strip_trace test_env test_dict test_afdict (is_utf8_digit test_env ''12mmft'') ''12mmft''
       MAX_STRIP (strip_init 6 False) = [(True, ''ft'')] \<and>
   strip_right test_env test_dict ''12mmft'' 6 False = (4, [''ft''], 1, False) \<and>
   strip_right test_env test_dict ''12mm'' 4 False = (2, [''mm''], 1, True) \<and>
   strip_trace test_env test_dict test_afdict (is_utf8_digit test_env ''12mm.ft'') ''12mm.ft''
       MAX_STRIP (strip_init 7 False) = [(True, ''ft''), (False, ''.''), (True, ''mm'')] \<and>
   no_adjacent_units (strip_trace test_env test_dict test_afdict
       (is_utf8_digit test_env ''12mm.ft'') ''12mm.ft'' MAX_STRIP (strip_init 7 False)) \<and>
   strip_right test_env test_dict ''12mm.ft'' 7 False = (2, [''ft'', ''.'', ''mm''], 3, True) \<and>
   show_sent (separate_word test_env test_dict opts_off empty_sentence ''12mmft'' 6 False)
     = Some [([''12mm''], Some ''12mm''), ([''ft''], Some ''ft'')] \<and>
   show_sent (separate_word test_env test_dict opts_off empty_sentence ''Delft'' 5 False)
     = Some [([''Delft''], Some ''Delft'')]"
proof -
  have h: "affix_table test_dict = Some test_afdict" by code_simp
  have nd: "\<not> is_utf8_digit test_env ''Delft.''" by code_simp
  have c1: "set (fst (snd (strip_right test_env test_dict ''Delft.'' 6 False)))
      \<subseteq> set (RPUNC test_afdict)"
    using unit_strip_gating [OF h, of test_env "''Delft.''" 6 False] nd
    by (simp add: Let_def split: prod.splits)
  have c2: "no_adjacent_units (strip_trace test_env test_dict test_afdict
       (is_utf8_digit test_env ''12mm.ft'') ''12mm.ft'' MAX_STRIP (strip_init 7 False))"
    using unit_strip_gating [OF h, of test_env "''12mm.ft''" 7 False]
    by (simp add: Let_def split: prod.splits)
  have ev: "affix_table test_dict = Some test_afdict \<and>
   \<not> is_utf8_digit test_env ''Delft.'' \<and>
   strip_trace test_env test_dict test_afdict (is_utf8_digit test_env ''Delft.'') ''Delft.''
       MAX_STRIP (strip_init 6 False) = [(False, ''.'')] \<and>
   strip_right test_env test_dict ''Delft.'' 6 False = (5, [''.''], 1, False) \<and>
   strip_right test_env test_dict ''Delft'' 5 False = (5, [], 0, False) \<and>
   is_utf8_digit test_env ''12mmft'' \<and>
   strip_trace test_env test_dict test_afdict (is_utf8_digit test_env ''12mmft'') ''12mmft''
       MAX_STRIP (strip_init 6 False) = [(True, ''ft'')] \<and>
   strip_right test_env test_dict ''12mmft'' 6 False = (4, [''ft''], 1, False) \<and>
   strip_right test_env test_dict ''12mm'' 4 False = (2, [''mm''], 1, True) \<and>
   strip_trace test_env test_dict test_afdict (is_utf8_digit test_env ''12mm.ft'') ''12mm.ft''
       MAX_STRIP (strip_init 7 False) = [(True, ''ft''), (False, ''.''), (True, ''mm'')] \<and>
   strip_right test_env test_dict ''12mm.ft'' 7 False = (2, [''ft'', ''.'', ''mm''], 3, True) \<and>
   show_sent (separate_word test_env test_dict opts_off empty_sentence ''12mmft'' 6 False)
     = Some [([''12mm''], Some ''12mm''), ([''ft''], Some ''ft'')] \<and>
   show_sent (separate_word test_env test_dict opts_off empty_sentence ''Delft'' 5 False)
     = Some [([''Delft''], Some ''Delft'')]"
    by code_simp
  show ?thesis using ev c1 c2 by blast
qed

text \<open>The raw token "(12ft" does not start with a digit: \<open>strip_left\<close> takes the
  parenthesis off, \<open>strip_right\<close> is called with "12ft", which starts with a digit, and
  the unit "ft" is stripped.\<close>

theorem unit_strip_gating_counterexample:
  "\<not> is_utf8_digit test_env ''(12ft'' \<and>
   ''ft'' \<in> set (UNITS test_afdict) \<and> ''ft'' \<notin> set (RPUNC test_afdict) \<and>
   \<not> find_word_in_dict test_dict ''(12ft'' \<and>
   map_option fst (strip_left test_env test_dict empty_sentence ''(12ft'' False) = Some ''12ft'' \<and>
   strip_right test_env test_dict ''12ft'' 4 False = (2, [''ft''], 1, True) \<and>
   strip_trace test_env test_dict test_afdict (is_utf8_digit test_env ''12ft'') ''12ft''
       MAX_STRIP (strip_init 4 False) = [(True, ''ft'')] \<and>
   show_sent (separate_word test_env test_dict opts_off empty_sentence ''(12ft'' 5 False)
     = Some [([''(''], Some ''(''), ([''12''], Some ''12''), ([''ft''], Some ''ft'')]"
  by code_simp

subsection \<open>Properties of add_alternative_with_subscr and guess_misspelled_word\<close>

lemma format_affix_lookups [simp]:
  "format_affix e (d\<lparr>find_word_in_dict := f, match_regex := r\<rparr>) at affix = format_affix e d at affix"
  by (cases at) (simp_all add: format_affix_def)

lemma add_affix_lookups [simp]:
  "add_affix e (d\<lparr>find_word_in_dict := f, match_regex := r\<rparr>) ts at affix ai tc ws
     = add_affix e d ts at affix ai tc ws"
  by (simp add: add_affix_def)

lemma add_affixes_lookups [simp]:
  "add_affixes e (d\<lparr>find_word_in_dict := f, match_regex := r\<rparr>) comps ai tc sent
     = add_affixes e d comps ai tc sent"
  by (induction comps arbitrary: ai tc sent) auto

lemma add_alternative_lookups [simp]:
  "add_alternative e (d\<lparr>find_word_in_dict := f, match_regex := r\<rparr>) sent prefix stem suffix
     = add_alternative e d sent prefix stem suffix"
  by (simp add: add_alternative_def)

lemma subscr_loop_lookups:
  "subscr_loop e (d\<lparr>find_word_in_dict := f, match_regex := r\<rparr>) subs prefix wd suffix sent b
     = subscr_loop e d subs prefix wd suffix sent b"
  by (cases suffix; induction subs arbitrary: sent b) (simp_all add: Let_def)

lemma subscr_loop_filter:
  "subscr_loop e d subs prefix wd suffix sent b
     = subscr_loop e d (filter (\<lambda>ss. boolean_dictionary_lookup d (subscripted_stem e wd ss)) subs)
         prefix wd suffix sent b"
  by (induction subs arbitrary: sent b) (simp_all add: Let_def subscripted_stem_def)

text \<open>
  Claim C8. Stem vetting is literal-only. When STEMSUBSCR is not empty,
  \<open>add_alternative_with_subscr\<close> does what its loop does on the subscripts whose
  subscripted stem \<open>boolean_dictionary_lookup\<close> finds, and on no other; its result is the
  same whatever \<open>find_word_in_dict\<close> and \<open>match_regex\<close> answer; and when the literal lookup
  finds none of the subscripted stems it emits nothing and returns false.
\<close>

theorem stem_vetting_literal_only:
  assumes "STEMSUBSCR afdict \<noteq> []"
  shows "add_alternative_with_subscr e d afdict sent prefix wd suffix
       = subscr_loop e d
           (filter (\<lambda>ss. boolean_dictionary_lookup d (subscripted_stem e wd ss)) (STEMSUBSCR afdict))
           prefix wd suffix sent False \<and>
     add_alternative_with_subscr e (d\<lparr>find_word_in_dict := f, match_regex := r\<rparr>) afdict sent
         prefix wd suffix
       = add_alternative_with_subscr e d afdict sent prefix wd suffix \<and>
     (list_all (\<lambda>ss. \<not> boolean_dictionary_lookup d (subscripted_stem e wd ss)) (STEMSUBSCR afdict)
        \<longrightarrow> add_alternative_with_subscr e d afdict sent prefix wd suffix = Some (sent, False))"
proof -
  have 1: "add_alternative_with_subscr e d afdict sent prefix wd suffix
       = subscr_loop e d
           (filter (\<lambda>ss. boolean_dictionary_lookup d (subscripted_stem e wd ss)) (STEMSUBSCR afdict))
           prefix wd suffix sent False"
    using assms subscr_loop_filter [of e d "STEMSUBSCR afdict" prefix wd suffix sent False]
    by (simp add: add_alternative_with_subscr_def)
  have 2: "add_alternative_with_subscr e (d\<lparr>find_word_in_dict := f, match_regex := r\<rparr>) afdict sent
         prefix wd suffix
       = add_alternative_with_subscr e d afdict sent prefix wd suffix"
    using assms by (simp add: add_alternative_with_subscr_def subscr_loop_lookups)
  have 3: "list_all (\<lambda>ss. \<not> boolean_dictionary_lookup d (subscripted_stem e wd ss)) (STEMSUBSCR afdict)
        \<longrightarrow> add_alternative_with_subscr e d afdict sent prefix wd suffix = Some (sent, False)"
  proof
    assume "list_all (\<lambda>ss. \<not> boolean_dictionary_lookup d (subscripted_stem e wd ss)) (STEMSUBSCR afdict)"
    then have "filter (\<lambda>ss. boolean_dictionary_lookup d (subscripted_stem e wd ss)) (STEMSUBSCR afdict) = []"
      by (simp add: list_all_iff filter_empty_conv)
    then show "add_alternative_with_subscr e d afdict sent prefix wd suffix = Some (sent, False)"
      using 1 by simp
  qed
  show ?thesis using 1 2 3 by blast
qed

text \<open>A Russian-like table: stems carry the subscript \<open>.=\<close>; the dictionary has the stem
  \<open>dog.=\<close> and the word \<open>cat\<close>, and every word matches a regular expression.\<close>

definition subscr_afdict :: Afdict where
  "subscr_afdict = test_afdict\<lparr>STEMSUBSCR := [''.='', ''.=x'']\<rparr>"

definition subscr_dict :: Dictionary where
  "subscr_dict = test_dict\<lparr>affix_table := Some subscr_afdict,
     boolean_dictionary_lookup := (\<lambda>w. w \<in> set [''dog.='', ''cat'']),
     find_word_in_dict := (\<lambda>w. True), match_regex := (\<lambda>w. Some ''ANY'')\<rparr>"

theorem stem_vetting_literal_only_witness:
  "STEMSUBSCR subscr_afdict \<noteq> [] \<and>
   map_option (\<lambda>(s, b). (map alternatives (word s), b))
     (add_alternative_with_subscr test_env subscr_dict subscr_afdict empty_sentence None
        ''dog'' (Some ''s''))
     = Some ([[''dog.=''], [''=s'']], True) \<and>
   match_regex subscr_dict ''cat.='' = Some ''ANY'' \<and> find_word_in_dict subscr_dict ''cat.='' \<and>
   add_alternative_with_subscr test_env subscr_dict subscr_afdict empty_sentence None
        ''cat'' (Some ''s'')
     = Some (empty_sentence, False)"
proof -
  have h: "STEMSUBSCR subscr_afdict \<noteq> []" by code_simp
  note g = stem_vetting_literal_only [OF h, of test_env subscr_dict empty_sentence None "''cat''"
      "Some ''s''"]
  have l: "list_all (\<lambda>ss. \<not> boolean_dictionary_lookup subscr_dict (subscripted_stem test_env ''cat'' ss))
      (STEMSUBSCR subscr_afdict)"
    by code_simp
  have c: "add_alternative_with_subscr test_env subscr_dict subscr_afdict empty_sentence None
        ''cat'' (Some ''s'') = Some (empty_sentence, False)"
    using g l by blast
  have ev: "STEMSUBSCR subscr_afdict \<noteq> [] \<and>
   map_option (\<lambda>(s, b). (map alternatives (word s), b))
     (add_alternative_with_subscr test_env subscr_dict subscr_afdict empty_sentence None
        ''dog'' (Some ''s''))
     = Some ([[''dog.=''], [''=s'']], True) \<and>
   match_regex subscr_dict ''cat.='' = Some ''ANY'' \<and> find_word_in_dict subscr_dict ''cat.=''"
    by code_simp
  show ?thesis using ev c by blast
qed

lemma guess_and_issue_known:
  assumes "spell_checker d = Some sc" "spellcheck_test sc wd"
  shows "guess_and_issue e d opts sent wd in_dict quote_found
     = (if t_count sent = 0 then issue_sentence_word e d sent wd quote_found
        else Some (fst (issue_alternatives sent wd quote_found)))"
  using assms
  by (simp add: guess_and_issue_def guess_misspelled_word_def issue_alternatives_def Let_def)

lemma guess_and_issue_off:
  "guess_and_issue e d (opts\<lparr>use_spell_guess := False\<rparr>) sent wd in_dict quote_found
     = (if t_count sent = 0 then issue_sentence_word e d sent wd quote_found
        else Some (fst (issue_alternatives sent wd quote_found)))"
  by (simp add: guess_and_issue_def issue_alternatives_def Let_def split: option.splits)

lemma separate_word_core_known:
  assumes "spell_checker d = Some sc" "spellcheck_test sc (copy_word e w n)"
  shows "separate_word_core e d opts sent w n limit_hit quote_found
     = separate_word_core e d (opts\<lparr>use_spell_guess := False\<rparr>) sent w n limit_hit quote_found"
  unfolding separate_word_core_def Let_def guess_and_issue_known [OF assms] guess_and_issue_off
  by (rule refl)

text \<open>
  Claim C9, as amended. When \<open>spellcheck_test\<close> recognizes the word,
  \<open>guess_misspelled_word\<close> returns false and the sentence is as before, whatever
  \<open>spellcheck_suggest\<close> would answer: no alternative is emitted and none is committed.
  When this is the spell checker of the dictionary, the end of \<open>separate_word\<close> then
  issues the word as it is, by \<open>issue_sentence_word\<close>, if no alternative is staged for
  it, and commits the staged alternatives otherwise; and \<open>separate_word\<close>, for a token
  whose word behind the strips the spell checker recognizes, does what it does with the
  spell guesses switched off.
\<close>

theorem spell_known_word_not_guessed:
  assumes "spellcheck_test sc wd"
  shows "guess_misspelled_word e d (sc\<lparr>spellcheck_suggest := suggest\<rparr>) sent wd quote_found
       = Some (sent, False) \<and>
     (spell_checker d = Some sc \<longrightarrow>
        guess_and_issue e d opts sent wd in_dict quote_found
          = (if t_count sent = 0 then issue_sentence_word e d sent wd quote_found
             else Some (fst (issue_alternatives sent wd quote_found))) \<and>
        (stripped_word e d sent0 w n quote_found = Some wd \<longrightarrow>
           separate_word e d opts sent0 w n quote_found
             = separate_word e d (opts\<lparr>use_spell_guess := False\<rparr>) sent0 w n quote_found))"
proof -
  have 1: "guess_misspelled_word e d (sc\<lparr>spellcheck_suggest := suggest\<rparr>) sent wd quote_found
       = Some (sent, False)"
    using assms by (simp add: guess_misspelled_word_def)
  have 3: "separate_word e d opts sent0 w n quote_found
             = separate_word e d (opts\<lparr>use_spell_guess := False\<rparr>) sent0 w n quote_found"
    if sc: "spell_checker d = Some sc" and sw: "stripped_word e d sent0 w n quote_found = Some wd"
  proof (cases "find_word_in_dict d (copy_word e w n)")
    case True
    then have "copy_word e w n = wd" using sw by (simp add: stripped_word_def)
    then have "spellcheck_test sc (copy_word e w n)" using assms by simp
    from separate_word_core_known [OF sc this] True show ?thesis
      by (simp add: separate_word_def)
  next
    case False
    show ?thesis
    proof (cases "strip_left e d sent0 w quote_found")
      case None
      then show ?thesis using False by (simp add: separate_word_def)
    next
      case (Some r)
      obtain w1 sent1 where r: "r = (w1, sent1)" by (cases r)
      show ?thesis
      proof (cases "n \<le> length w - length w1")
        case True
        then show ?thesis using False Some r by (simp add: separate_word_def)
      next
        case nle: False
        obtain wend1 rs nrs1 in_dict1 where
          sr: "strip_right e d w1 (n - (length w - length w1)) False = (wend1, rs, nrs1, in_dict1)"
          by (cases "strip_right e d w1 (n - (length w - length w1)) False") auto
        have "copy_word e w1 wend1 = wd"
          using sw False Some r nle sr by (simp add: stripped_word_def)
        then have "spellcheck_test sc (copy_word e w1 wend1)" using assms by simp
        from separate_word_core_known [OF sc this] show ?thesis
          using False Some r nle sr by (simp add: separate_word_def)
      qed
    qed
  qed
  show ?thesis using 1 3 guess_and_issue_known [OF _ assms] by blast
qed

text \<open>A spell checker that knows the word \<open>teh\<close> and would suggest \<open>the\<close> for it.\<close>

definition knowing_checker :: Spell_Checker where
  "knowing_checker = \<lparr>spellcheck_test = (\<lambda>w. w = ''teh''), spellcheck_suggest = (\<lambda>w. [''the''])\<rparr>"

definition guessing_checker :: Spell_Checker where
  "guessing_checker = \<lparr>spellcheck_test = (\<lambda>w. False), spellcheck_suggest = (\<lambda>w. [''the''])\<rparr>"

text \<open>The example dictionary with each of the two spell checkers.\<close>

definition knowing_dict :: Dictionary where
  "knowing_dict = test_dict\<lparr>spell_checker := Some knowing_checker\<rparr>"

definition guessing_dict :: Dictionary where
  "guessing_dict = test_dict\<lparr>spell_checker := Some guessing_checker\<rparr>"

theorem spell_known_word_not_guessed_witness:
  "spellcheck_test knowing_checker ''teh'' \<and>
   spell_checker knowing_dict = Some knowing_checker \<and>
   stripped_word test_env knowing_dict empty_sentence ''teh'' 3 False = Some ''teh'' \<and>
   t_count empty_sentence = 0 \<and> t_count staged_dog \<noteq> 0 \<and>
   guess_misspelled_word test_env knowing_dict knowing_checker empty_sentence ''teh'' False
     = Some (empty_sentence, False) \<and>
   guess_and_issue test_env knowing_dict opts_on empty_sentence ''teh'' False False
     = issue_sentence_word test_env knowing_dict empty_sentence ''teh'' False \<and>
   guess_and_issue test_env knowing_dict opts_on staged_dog ''teh'' False False
     = Some (fst (issue_alternatives staged_dog ''teh'' False)) \<and>
   separate_word test_env knowing_dict opts_on empty_sentence ''teh'' 3 False
     = separate_word test_env knowing_dict (opts_on\<lparr>use_spell_guess := False\<rparr>) empty_sentence
         ''teh'' 3 False \<and>
   show_sent (separate_word test_env knowing_dict opts_on empty_sentence ''teh'' 3 False)
     = Some [([''teh''], Some ''teh'')] \<and>
   show_sent (separate_word test_env guessing_dict opts_on empty_sentence ''teh'' 3 False)
     = Some [([''the[~]''], Some ''teh'')]"
proof -
  have h: "spellcheck_test knowing_checker ''teh''" by code_simp
  have h2: "spell_checker knowing_dict = Some knowing_checker" by (simp add: knowing_dict_def)
  have h3: "stripped_word test_env knowing_dict empty_sentence ''teh'' 3 False = Some ''teh''"
    by code_simp
  have h4: "t_count empty_sentence = 0" "t_count staged_dog \<noteq> 0" by code_simp+
  note g = spell_known_word_not_guessed [OF h, of test_env knowing_dict
      "spellcheck_suggest knowing_checker" empty_sentence False opts_on False empty_sentence
      "''teh''" 3]
  note g' = spell_known_word_not_guessed [OF h, of test_env knowing_dict
      "spellcheck_suggest knowing_checker" staged_dog False opts_on False empty_sentence
      "''teh''" 3]
  have c1: "guess_misspelled_word test_env knowing_dict knowing_checker empty_sentence ''teh'' False
     = Some (empty_sentence, False)"
    using g by simp
  have c2: "guess_and_issue test_env knowing_dict opts_on empty_sentence ''teh'' False False
     = issue_sentence_word test_env knowing_dict empty_sentence ''teh'' False"
    using g h2 h4 by simp
  have c2': "guess_and_issue test_env knowing_dict opts_on staged_dog ''teh'' False False
     = Some (fst (issue_alternatives staged_dog ''teh'' False))"
    using g' h2 h4 by simp
  have c3: "separate_word test_env knowing_dict opts_on empty_sentence ''teh'' 3 False
     = separate_word test_env knowing_dict (opts_on\<lparr>use_spell_guess := False\<rparr>) empty_sentence
         ''teh'' 3 False"
    using g h2 h3 by blast
  have ev: "show_sent (separate_word test_env knowing_dict opts_on empty_sentence ''teh'' 3 False)
     = Some [([''teh''], Some ''teh'')] \<and>
   show_sent (separate_word test_env guessing_dict opts_on empty_sentence ''teh'' 3 False)
     = Some [([''the[~]''], Some ''teh'')]"
    by code_simp
  show ?thesis using h h2 h3 h4 c1 c2 c2' c3 ev by blast
qed

text \<open>A dictionary with the NUL infix mark whose regular expressions match the stem
  \<open>teh\<close>, and a spell checker that knows the word \<open>tehs\<close>: \<open>suffix_split\<close> stages the
  split of \<open>tehs\<close> and returns false, the spell checker is asked and knows the word, and
  the split is committed; the word is not issued as it is.\<close>

definition tehs_checker :: Spell_Checker where
  "tehs_checker = \<lparr>spellcheck_test = (\<lambda>w. w = ''tehs''), spellcheck_suggest = (\<lambda>w. [''the''])\<rparr>"

definition nul_dict :: Dictionary where
  "nul_dict = test_dict\<lparr>INFIX_MARK := NUL,
     boolean_dictionary_lookup := (\<lambda>w. False),
     find_word_in_dict := (\<lambda>w. w = ''teh''),
     match_regex := (\<lambda>w. if w = ''teh'' then Some ''TEH'' else None),
     spell_checker := Some tehs_checker\<rparr>"

theorem spell_known_word_not_guessed_counterexample:
  "map_option (\<lambda>sc. spellcheck_test sc ''tehs'') (spell_checker nul_dict) = Some True \<and>
   \<not> boolean_dictionary_lookup nul_dict ''tehs'' \<and>
   \<not> find_word_in_dict nul_dict ''tehs'' \<and>
   stripped_word test_env nul_dict empty_sentence ''tehs'' 4 False = Some ''tehs'' \<and>
   show_sent (separate_word test_env nul_dict opts_on empty_sentence ''tehs'' 4 False)
     = Some [([''teh''], Some ''tehs''), ([''s''], None)] \<and>
   show_sent (issue_sentence_word test_env nul_dict empty_sentence ''tehs'' False)
     = Some [([''tehs''], Some ''tehs'')] \<and>
   show_sent (separate_word test_env nul_dict opts_on empty_sentence ''tehs'' 4 False)
     \<noteq> show_sent (issue_sentence_word test_env nul_dict empty_sentence ''tehs'' False)"
  by code_simp

text \<open>A spell checker with 70 suggestions, \<open>the\<close>, \<open>thee\<close>, \<open>theee\<close>, ..., and a
  dictionary that has them all.\<close>

definition many_checker :: Spell_Checker where
  "many_checker = \<lparr>spellcheck_test = (\<lambda>w. False),
     spellcheck_suggest = (\<lambda>w. map (\<lambda>n. ''th'' @ replicate (Suc n) (CHR ''e'')) [0 ..< 70])\<rparr>"

definition all_dict :: Dictionary where
  "all_dict = test_dict\<lparr>boolean_dictionary_lookup := (\<lambda>w. True)\<rparr>"

text \<open>
  Claim C7 says that \<open>guess_misspelled_word\<close> never commits more than
  \<open>MAX_NUM_SPELL_GUESSES = 60\<close> guesses. The loop is left when \<open>num_guesses > 60\<close>: with 70
  suggestions of the dictionary it commits one slot of 61 alternatives.
\<close>

theorem spell_guess_limit_exceeded:
  "map_option (\<lambda>(s, b). (map (\<lambda>w. length (alternatives w)) (word s), t_count s, b))
     (guess_misspelled_word test_env all_dict many_checker empty_sentence ''teh'' False)
     = Some ([61], 0, True)"
  by code_simp

subsection \<open>The sentence between two calls of separate_word\<close>




























subsection \<open>When separate_word returns\<close>





















subsection \<open>The pieces of the right strip\<close>



text \<open>
  Claim C3 says that when the right strip reaches \<open>MAX_STRIP\<close>, \<open>separate_word\<close> drops
  the stripped pieces and accepts the whole raw token as one unknown word. \<open>strip_right\<close>
  leaves its loop after ten strips with \<open>wend\<close> in front of the ten pieces, and
  \<open>separate_word\<close> copies the word up to that \<open>wend\<close> before it resets \<open>n_r_stripped\<close>:
  for the token of the letter a and eleven periods the sentence gets the one word "a.",
  and ten periods of the input are in no word. The whole token as one word is what
  \<open>issue_sentence_word\<close> of the token gives. Likewise a token of eleven periods gives the
  one word ".".
\<close>

theorem max_strip_pieces_lost:
  "nrs (strip_right_loop test_env test_dict test_afdict (is_utf8_digit test_env ''a...........'')
          ''a...........'' MAX_STRIP (strip_init 12 False)) = MAX_STRIP \<and>
   stripped_word test_env test_dict empty_sentence ''a...........'' 12 False = Some ''a.'' \<and>
   show_sent (separate_word test_env test_dict opts_off empty_sentence ''a...........'' 12 False)
     = Some [([''a.''], Some ''a.'')] \<and>
   show_res (separate_sentence test_env test_dict opts_off empty_sentence ''a...........'')
     = Some ([([''a.''], Some ''a.'')], Return True) \<and>
   show_sent (issue_sentence_word test_env test_dict empty_sentence ''a...........'' False)
     = Some [([''a...........''], Some ''a...........'')] \<and>
   show_sent (separate_word test_env test_dict opts_off empty_sentence ''...........'' 11 False)
     = Some [([''.''], Some ''.'')]"
  by code_simp

subsection \<open>Properties of separate_sentence\<close>

lemma mbrtowc_Nil [simp]: "mbrtowc e [] = (0, 0)"
  by (simp add: mbrtowc_def)







end
